theory Spec2Isabelle
  imports Complex_Main
begin

section \<open>Conventions\<close>

text \<open>
  The image tools are TypeScript. A JavaScript \<^verbatim>\<open>number\<close> that holds a pixel count
  (\<^verbatim>\<open>naturalWidth\<close>, \<^verbatim>\<open>canvas.width\<close>) is a \<^typ>\<open>nat\<close>, a number that holds a
  whole count of degrees is an \<^typ>\<open>int\<close>, and every other number (crop coordinates,
  scales, qualities) is a \<^typ>\<open>real\<close>. The functions without a suffix compute with
  exact arithmetic. Where a property depends on the rounding of IEEE doubles, the
  function is given a second time with the suffix \<open>_double\<close>, the same code with every
  arithmetic operation that can round followed by \<open>double_round\<close>.
\<close>

text \<open>\<^verbatim>\<open>Math.round\<close>: the nearest integer, a half rounded towards plus infinity.\<close>

definition Math_round :: "real \<Rightarrow> int" where
  "Math_round v = \<lfloor>v + 1 / 2\<rfloor>"

text \<open>
  The remainder operator \<^verbatim>\<open>%\<close> of JavaScript on whole numbers: the result has the sign
  of the dividend.
\<close>

definition js_rem :: "int \<Rightarrow> int \<Rightarrow> int" where
  "js_rem a b = sgn a * (\<bar>a\<bar> mod \<bar>b\<bar>)"

section \<open>IEEE doubles\<close>

text \<open>
  A JavaScript \<^verbatim>\<open>number\<close> is an IEEE 754 double: a sign, a significand of 53 bits and
  a binary exponent. The result of \<^verbatim>\<open>+\<close>, \<^verbatim>\<open>-\<close>, \<^verbatim>\<open>*\<close> and \<^verbatim>\<open>/\<close> is the exact result
  rounded to the nearest double, a tie going to the double with the even significand.
  \<open>binade x\<close> is the exponent \<open>e\<close> with \<open>2^e \<le> x < 2^(e+1)\<close> of a positive \<open>x\<close>, and
  \<open>double_round x\<close> is the multiple of \<open>2^(e-52)\<close> nearest to \<open>x\<close>. The exponent is
  not bounded here: overflow to \<^verbatim>\<open>Infinity\<close> and the subnormal numbers below \<open>2^-1022\<close>
  are left out, and the pixel counts, scales and qualities of the image tools are far
  from both. Halving a double and adding or subtracting whole numbers below \<open>2^53\<close> are
  exact.
\<close>

function binade :: "real \<Rightarrow> int" where
  "binade x =
     (if x \<le> 0 then 0
      else if 2 \<le> x then binade (x / 2) + 1
      else if x < 1 then binade (x * 2) - 1
      else 0)"
  by pat_completeness auto
termination
proof (relation "measure (\<lambda>x. nat \<lceil>\<bar>log 2 x\<bar>\<rceil> + (if x < 1 then 1 else 0))")
  show "wf (measure (\<lambda>x. nat \<lceil>\<bar>log 2 x\<bar>\<rceil> + (if x < 1 then 1 else 0)))" by simp
next
  fix x :: real
  assume "\<not> x \<le> 0" and x: "2 \<le> x"
  then have "log 2 (x / 2) = log 2 x - 1" by (simp add: log_divide)
  moreover have "1 \<le> log 2 x" using x by (simp add: le_log_iff)
  ultimately have "\<lceil>\<bar>log 2 (x / 2)\<bar>\<rceil> = \<lceil>\<bar>log 2 x\<bar>\<rceil> - 1" by simp
  moreover have "1 \<le> \<lceil>\<bar>log 2 x\<bar>\<rceil>" using \<open>1 \<le> log 2 x\<close> by linarith
  ultimately show "(x / 2, x) \<in> measure (\<lambda>x. nat \<lceil>\<bar>log 2 x\<bar>\<rceil> + (if x < 1 then 1 else 0))"
    using x by simp
next
  fix x :: real
  assume pos: "\<not> x \<le> 0" and "\<not> 2 \<le> x" and x: "x < 1"
  then have l: "log 2 (x * 2) = log 2 x + 1" by (simp add: log_mult)
  have neg: "log 2 x < 0" using pos x by simp
  show "(x * 2, x) \<in> measure (\<lambda>x. nat \<lceil>\<bar>log 2 x\<bar>\<rceil> + (if x < 1 then 1 else 0))"
  proof (cases "x * 2 < 1")
    case True
    then have "log 2 (x * 2) < 0" using pos by simp
    with l neg have "\<lceil>\<bar>log 2 (x * 2)\<bar>\<rceil> = \<lceil>\<bar>log 2 x\<bar>\<rceil> - 1" by simp
    moreover have "1 \<le> \<lceil>\<bar>log 2 x\<bar>\<rceil>" using l \<open>log 2 (x * 2) < 0\<close> by linarith
    ultimately show ?thesis using True x by simp
  next
    case False
    then have "0 \<le> log 2 (x * 2)" using pos by simp
    with l neg have e: "\<bar>log 2 (x * 2)\<bar> = log 2 (x * 2)" "\<bar>log 2 x\<bar> = - log 2 x"
      by simp_all
    from l neg \<open>0 \<le> log 2 (x * 2)\<close>
    have "\<lceil>log 2 (x * 2)\<rceil> \<le> 1" and "1 \<le> \<lceil>- log 2 x\<rceil>" by linarith+
    then have "nat \<lceil>\<bar>log 2 (x * 2)\<bar>\<rceil> < nat \<lceil>\<bar>log 2 x\<bar>\<rceil> + 1"
      unfolding e by linarith
    then show ?thesis using False x by (simp del: abs_le_iff)
  qed
qed

declare binade.simps [simp del]

definition pow2 :: "int \<Rightarrow> real" where
  "pow2 e = (if 0 \<le> e then 2 ^ nat e else 1 / 2 ^ nat (- e))"

definition round_half_even :: "real \<Rightarrow> int" where
  "round_half_even y =
     (if y - real_of_int \<lfloor>y\<rfloor> < 1 / 2 then \<lfloor>y\<rfloor>
      else if 1 / 2 < y - real_of_int \<lfloor>y\<rfloor> then \<lfloor>y\<rfloor> + 1
      else if even \<lfloor>y\<rfloor> then \<lfloor>y\<rfloor> else \<lfloor>y\<rfloor> + 1)"

definition double_round :: "real \<Rightarrow> real" where
  "double_round x =
     (if x = 0 then 0
      else sgn x * (real_of_int (round_half_even (\<bar>x\<bar> / pow2 (binade \<bar>x\<bar> - 52)))
                     * pow2 (binade \<bar>x\<bar> - 52)))"

section \<open>Resize: the step-down loop of \<^verbatim>\<open>resizeImage\<close>\<close>

text \<open>
  \<^verbatim>\<open>
  while (currentCanvas.width > targetW * 2 || currentCanvas.height > targetH * 2) {
    const halfW = Math.max(Math.floor(currentCanvas.width / 2), targetW);
    const halfH = Math.max(Math.floor(currentCanvas.height / 2), targetH);
    ... halfCanvas.width = halfW; halfCanvas.height = halfH; ...
    currentCanvas = halfCanvas;
  }
  \<close>
  A canvas is the pair of its width and height. \<open>stepDown\<close> returns the canvases the
  loop creates, in order; the loop's termination is the termination proof below.
\<close>

fun stepDown_measure :: "nat \<times> nat \<times> nat \<times> nat \<Rightarrow> nat" where
  "stepDown_measure (targetW, targetH, w, h) =
     (if w > targetW * 2 then w else 0) + (if h > targetH * 2 then h else 0)"

function stepDown :: "nat \<Rightarrow> nat \<Rightarrow> nat \<times> nat \<Rightarrow> (nat \<times> nat) list" where
  "stepDown targetW targetH (w, h) =
     (if w > targetW * 2 \<or> h > targetH * 2 then
        (let halfW = max (w div 2) targetW;
             halfH = max (h div 2) targetH
         in (halfW, halfH) # stepDown targetW targetH (halfW, halfH))
      else [])"
  by pat_completeness auto
termination
  by (relation "measure (\<lambda>(targetW, targetH, w, h). stepDown_measure (targetW, targetH, w, h))")
     (auto simp: max_def)

declare stepDown.simps [simp del]

text \<open>The canvas the final resize reads from: the last one created, or the source.\<close>

definition lastCanvas :: "nat \<Rightarrow> nat \<Rightarrow> nat \<times> nat \<Rightarrow> nat \<times> nat" where
  "lastCanvas targetW targetH src = last (src # stepDown targetW targetH src)"

section \<open>Crop: the rotation accumulator\<close>

text \<open>
  \<^verbatim>\<open>setRotation((prev) => (prev + degrees) % 360)\<close>, called with \<open>90\<close> and \<open>-90\<close>
  by the two rotate buttons.
\<close>

definition handleRotate :: "int \<Rightarrow> int \<Rightarrow> int" where
  "handleRotate prev degrees = js_rem (prev + degrees) 360"

definition rotateAll :: "int list \<Rightarrow> int" where
  "rotateAll cmds = foldl handleRotate 0 cmds"

section \<open>Fit: \<^verbatim>\<open>processImage\<close>\<close>

text \<open>An \<^verbatim>\<open>HTMLImageElement\<close>, reduced to the two fields the tools read.\<close>

record image =
  naturalWidth :: nat
  naturalHeight :: nat

datatype OutputFormat = A4 | WhatsappDP
datatype Orientation = Portrait | Landscape

text \<open>The constants of \<^verbatim>\<open>constants.ts\<close>, each a pair of width and height.\<close>

definition A4_PORTRAIT :: "nat \<times> nat" where "A4_PORTRAIT = (2480, 3508)"
definition A4_LANDSCAPE :: "nat \<times> nat" where "A4_LANDSCAPE = (3508, 2480)"
definition WHATSAPP_DP :: "nat \<times> nat" where "WHATSAPP_DP = (1080, 1080)"

definition detectOrientation :: "nat \<Rightarrow> nat \<Rightarrow> Orientation" where
  "detectOrientation w h = (if w > h then Landscape else Portrait)"

definition getCanvasDimensions :: "OutputFormat \<Rightarrow> Orientation \<Rightarrow> nat \<times> nat" where
  "getCanvasDimensions fmt ori =
     (if fmt = WhatsappDP then (fst WHATSAPP_DP, snd WHATSAPP_DP)
      else if ori = Landscape then A4_LANDSCAPE else A4_PORTRAIT)"

text \<open>
  The \<^verbatim>\<open>ProcessingResult\<close> of the source, without its canvas: of the pixels only the
  place of the foreground image is kept, as \<open>offsetX\<close> and \<open>offsetY\<close>, the locals that
  \<^verbatim>\<open>processImage\<close> passes to the second \<^verbatim>\<open>drawImage\<close>.
\<close>

record ProcessingResult =
  originalWidth :: nat
  originalHeight :: nat
  scaledWidth :: int
  scaledHeight :: int
  scale :: real
  orientation :: Orientation
  outputFormat :: OutputFormat
  canvasWidth :: nat
  canvasHeight :: nat
  offsetX :: int
  offsetY :: int

text \<open>
  The body of \<^verbatim>\<open>processImage\<close> from the scale factor on, for any canvas size:
  \<^verbatim>\<open>
  const scaleX = canvasDims.width / originalWidth;
  const scaleY = canvasDims.height / originalHeight;
  const scale = Math.min(scaleX, scaleY);
  const scaledWidth = Math.round(originalWidth * scale);
  const scaledHeight = Math.round(originalHeight * scale);
  const offsetX = Math.round((canvasDims.width - scaledWidth) / 2);
  const offsetY = Math.round((canvasDims.height - scaledHeight) / 2);
  \<close>
  The model is the source on images of positive width and height; on an empty image
  JavaScript divides by zero into \<^verbatim>\<open>Infinity\<close> or \<^verbatim>\<open>NaN\<close>, which the reals lack.
\<close>

definition fitOnCanvas ::
  "nat \<Rightarrow> nat \<Rightarrow> nat \<times> nat \<Rightarrow> Orientation \<Rightarrow> OutputFormat \<Rightarrow> ProcessingResult" where
  "fitOnCanvas originalWidth' originalHeight' canvasDims finalOrientation outputFormat' =
     (let scaleX = real (fst canvasDims) / real originalWidth';
          scaleY = real (snd canvasDims) / real originalHeight';
          scale' = min scaleX scaleY;
          scaledWidth' = Math_round (real originalWidth' * scale');
          scaledHeight' = Math_round (real originalHeight' * scale');
          offsetX' = Math_round ((real (fst canvasDims) - real_of_int scaledWidth') / 2);
          offsetY' = Math_round ((real (snd canvasDims) - real_of_int scaledHeight') / 2)
      in \<lparr> originalWidth = originalWidth', originalHeight = originalHeight',
           scaledWidth = scaledWidth', scaledHeight = scaledHeight', scale = scale',
           orientation = finalOrientation, outputFormat = outputFormat',
           canvasWidth = fst canvasDims, canvasHeight = snd canvasDims,
           offsetX = offsetX', offsetY = offsetY' \<rparr>)"

text \<open>
  \<^verbatim>\<open>processImage(image, options)\<close>; the two fields of \<^verbatim>\<open>options\<close> are two
  arguments, and \<^verbatim>\<open>requestedOrientation ?? detectOrientation(...)\<close> is the case
  distinction on the optional orientation.
\<close>

definition processImage :: "image \<Rightarrow> OutputFormat \<Rightarrow> Orientation option \<Rightarrow> ProcessingResult" where
  "processImage img outputFormat' requestedOrientation =
     (let originalWidth' = naturalWidth img;
          originalHeight' = naturalHeight img;
          finalOrientation =
            (case requestedOrientation of
               Some ori \<Rightarrow> ori
             | None \<Rightarrow> detectOrientation originalWidth' originalHeight');
          canvasDims = getCanvasDimensions outputFormat' finalOrientation
      in fitOnCanvas originalWidth' originalHeight' canvasDims finalOrientation outputFormat')"

text \<open>
  \<^verbatim>\<open>processImage\<close> as it runs on doubles. The two divisions and the two products can
  round; \<^verbatim>\<open>Math.round\<close> returns the exact nearest integer of its argument; the
  differences \<^verbatim>\<open>canvasDims.width - scaledWidth\<close> are differences of whole numbers and
  their halves are exact.
\<close>

definition fitOnCanvas_double ::
  "nat \<Rightarrow> nat \<Rightarrow> nat \<times> nat \<Rightarrow> Orientation \<Rightarrow> OutputFormat \<Rightarrow> ProcessingResult" where
  "fitOnCanvas_double originalWidth' originalHeight' canvasDims finalOrientation outputFormat' =
     (let scaleX = double_round (real (fst canvasDims) / real originalWidth');
          scaleY = double_round (real (snd canvasDims) / real originalHeight');
          scale' = min scaleX scaleY;
          scaledWidth' = Math_round (double_round (real originalWidth' * scale'));
          scaledHeight' = Math_round (double_round (real originalHeight' * scale'));
          offsetX' = Math_round ((real (fst canvasDims) - real_of_int scaledWidth') / 2);
          offsetY' = Math_round ((real (snd canvasDims) - real_of_int scaledHeight') / 2)
      in \<lparr> originalWidth = originalWidth', originalHeight = originalHeight',
           scaledWidth = scaledWidth', scaledHeight = scaledHeight', scale = scale',
           orientation = finalOrientation, outputFormat = outputFormat',
           canvasWidth = fst canvasDims, canvasHeight = snd canvasDims,
           offsetX = offsetX', offsetY = offsetY' \<rparr>)"

definition processImage_double ::
  "image \<Rightarrow> OutputFormat \<Rightarrow> Orientation option \<Rightarrow> ProcessingResult" where
  "processImage_double img outputFormat' requestedOrientation =
     (let originalWidth' = naturalWidth img;
          originalHeight' = naturalHeight img;
          finalOrientation =
            (case requestedOrientation of
               Some ori \<Rightarrow> ori
             | None \<Rightarrow> detectOrientation originalWidth' originalHeight');
          canvasDims = getCanvasDimensions outputFormat' finalOrientation
      in fitOnCanvas_double originalWidth' originalHeight' canvasDims finalOrientation
           outputFormat')"

text \<open>
  The geometry the specification gives for the Fit Compositor, in its words:
  \<open>scale = min(canvasWidth/source.width, canvasHeight/source.height)\<close>,
  \<open>scaledWidth/Height = round(source.width*scale), round(source.height*scale)\<close>,
  \<open>offsetX/Y = round((canvas - scaled)/2)\<close>, with the library's \<^const>\<open>round\<close>
  and \<^const>\<open>min\<close>, the quotients and products being those of doubles. It is compared
  with the source's \<open>fitOnCanvas_double\<close> below.
\<close>

record fit_geometry =
  fit_scale :: real
  fit_scaledWidth :: int
  fit_scaledHeight :: int
  fit_offsetX :: int
  fit_offsetY :: int

definition spec_scale :: "nat \<Rightarrow> nat \<Rightarrow> nat \<Rightarrow> nat \<Rightarrow> real" where
  "spec_scale sourceWidth sourceHeight cw ch =
     min (double_round (real cw / real sourceWidth)) (double_round (real ch / real sourceHeight))"

definition fit_spec_double :: "nat \<Rightarrow> nat \<Rightarrow> nat \<Rightarrow> nat \<Rightarrow> fit_geometry" where
  "fit_spec_double sourceWidth sourceHeight cw ch =
     \<lparr> fit_scale = spec_scale sourceWidth sourceHeight cw ch,
       fit_scaledWidth =
         round (double_round (real sourceWidth * spec_scale sourceWidth sourceHeight cw ch)),
       fit_scaledHeight =
         round (double_round (real sourceHeight * spec_scale sourceWidth sourceHeight cw ch)),
       fit_offsetX =
         round ((real cw - real_of_int (round (double_round
            (real sourceWidth * spec_scale sourceWidth sourceHeight cw ch)))) / 2),
       fit_offsetY =
         round ((real ch - real_of_int (round (double_round
            (real sourceHeight * spec_scale sourceWidth sourceHeight cw ch)))) / 2) \<rparr>"

definition geometry_of :: "ProcessingResult \<Rightarrow> fit_geometry" where
  "geometry_of r =
     \<lparr> fit_scale = scale r, fit_scaledWidth = scaledWidth r, fit_scaledHeight = scaledHeight r,
       fit_offsetX = offsetX r, fit_offsetY = offsetY r \<rparr>"

section \<open>Compress: \<^verbatim>\<open>compressToTargetSize\<close>\<close>

text \<open>
  \<^verbatim>\<open>canvas.toBlob\<close> hands the callback a blob or \<^verbatim>\<open>null\<close>; on \<^verbatim>\<open>null\<close>, the promise
  of \<^verbatim>\<open>canvasToBlob\<close> is rejected with \<^verbatim>\<open>new Error('Failed to create blob')\<close> and
  the search ends with that error. The encoder is a parameter
  \<open>canvasToBlob :: real \<Rightarrow> 'b option\<close>, with \<open>None\<close> for \<^verbatim>\<open>null\<close>, and the size of a blob
  is a parameter \<open>blob_size\<close>.
\<close>

datatype error = FailedToCreateBlob

text \<open>
  The variables of the search, \<^verbatim>\<open>low\<close>, \<^verbatim>\<open>high\<close> and \<^verbatim>\<open>bestBlob\<close>, and the log of
  the qualities passed to \<^verbatim>\<open>canvasToBlob\<close> so far, oldest first: encoding is the
  effect of the function, and the log makes it a value.
\<close>

record 'b search =
  low :: real
  high :: real
  bestBlob :: "'b option"
  encoded :: "real list"

text \<open>
  \<^verbatim>\<open>
  for (let i = 0; i < 8; i++) {
    const mid = (low + high) / 2;
    const blob = await canvasToBlob(mid);
    if (blob.size <= targetBytes) { bestBlob = blob; low = mid; } else { high = mid; }
  }
  \<close>
\<close>

function search_loop ::
  "(real \<Rightarrow> 'b option) \<Rightarrow> ('b \<Rightarrow> nat) \<Rightarrow> real \<Rightarrow> nat \<Rightarrow> 'b search \<Rightarrow> error + 'b search" where
  "search_loop canvasToBlob blob_size targetBytes i s =
     (if i < 8 then
        (let mid = (low s + high s) / 2 in
         case canvasToBlob mid of
           None \<Rightarrow> Inl FailedToCreateBlob
         | Some blob \<Rightarrow>
             if real (blob_size blob) \<le> targetBytes
             then search_loop canvasToBlob blob_size targetBytes (i + 1)
                    (s\<lparr> bestBlob := Some blob, low := mid, encoded := encoded s @ [mid] \<rparr>)
             else search_loop canvasToBlob blob_size targetBytes (i + 1)
                    (s\<lparr> high := mid, encoded := encoded s @ [mid] \<rparr>))
      else Inr s)"
  by pat_completeness auto
termination
  by (relation "measure (\<lambda>(canvasToBlob, blob_size, targetBytes, i, s). 8 - i)") auto

declare search_loop.simps [simp del]

text \<open>The variables before the loop.\<close>

definition search_start :: "real \<Rightarrow> real \<Rightarrow> 'b search" where
  "search_start minQuality maxQuality =
     \<lparr> low = minQuality, high = maxQuality, bestBlob = None, encoded = [] \<rparr>"

text \<open>
  \<^verbatim>\<open>return bestBlob || await canvasToBlob(minQuality)\<close> after the loop; a blob is an
  object and so never falsy. The result is the blob together with the log of encodings.
  The one call site passes no qualities, so \<open>minQuality = 0.1\<close> and
  \<open>maxQuality = 0.95\<close> there.
\<close>

definition compressToTargetSize ::
  "(real \<Rightarrow> 'b option) \<Rightarrow> ('b \<Rightarrow> nat) \<Rightarrow> real \<Rightarrow> real \<Rightarrow> real \<Rightarrow> error + 'b \<times> real list" where
  "compressToTargetSize canvasToBlob blob_size targetBytes minQuality maxQuality =
     (case search_loop canvasToBlob blob_size targetBytes 0 (search_start minQuality maxQuality) of
        Inl e \<Rightarrow> Inl e
      | Inr s \<Rightarrow>
          (case bestBlob s of
             Some blob \<Rightarrow> Inr (blob, encoded s)
           | None \<Rightarrow>
               (case canvasToBlob minQuality of
                  None \<Rightarrow> Inl FailedToCreateBlob
                | Some blob \<Rightarrow> Inr (blob, encoded s @ [minQuality]))))"

text \<open>
  The quality of the returned blob: the value of \<^verbatim>\<open>low\<close> after the loop. The loop
  assigns \<^verbatim>\<open>low\<close> and \<^verbatim>\<open>bestBlob\<close> together, so while no probe fits \<^verbatim>\<open>low\<close> is
  \<^verbatim>\<open>minQuality\<close>, the quality of the fallback encoding.
\<close>

definition chosenQuality ::
  "(real \<Rightarrow> 'b option) \<Rightarrow> ('b \<Rightarrow> nat) \<Rightarrow> real \<Rightarrow> real \<Rightarrow> real \<Rightarrow> real option" where
  "chosenQuality canvasToBlob blob_size targetBytes minQuality maxQuality =
     (case search_loop canvasToBlob blob_size targetBytes 0 (search_start minQuality maxQuality) of
        Inl e \<Rightarrow> None
      | Inr s \<Rightarrow> Some (low s))"

text \<open>
  One step of the search in the words of the specification, for an encoder that always
  produces a blob: probe \<open>mid = (low+high)/2\<close> and encode at \<open>mid\<close>; if the encoded size
  is at most \<open>targetBytes\<close>, record the blob as the best and move \<open>low = mid\<close>, otherwise
  move \<open>high = mid\<close>. \<open>bisect \<dots> n\<close> is the state after \<open>n\<close> such steps.
\<close>

definition probe :: "(real \<Rightarrow> 'b) \<Rightarrow> ('b \<Rightarrow> nat) \<Rightarrow> real \<Rightarrow> 'b search \<Rightarrow> 'b search" where
  "probe encode blob_size targetBytes s =
     (if real (blob_size (encode ((low s + high s) / 2))) \<le> targetBytes
      then s\<lparr> bestBlob := Some (encode ((low s + high s) / 2)), low := (low s + high s) / 2,
              encoded := encoded s @ [(low s + high s) / 2] \<rparr>
      else s\<lparr> high := (low s + high s) / 2, encoded := encoded s @ [(low s + high s) / 2] \<rparr>)"

definition bisect ::
  "(real \<Rightarrow> 'b) \<Rightarrow> ('b \<Rightarrow> nat) \<Rightarrow> real \<Rightarrow> real \<Rightarrow> real \<Rightarrow> nat \<Rightarrow> 'b search" where
  "bisect encode blob_size targetBytes minQ maxQ n =
     (probe encode blob_size targetBytes ^^ n) (search_start minQ maxQ)"

text \<open>An encoder for the examples: 48000 bytes up to quality 0.5 and 61000 above.\<close>

definition example_encoder :: "real \<Rightarrow> nat" where
  "example_encoder q = (if q \<le> 1 / 2 then 48000 else 61000)"

text \<open>
  The search as it runs on doubles: the sum \<^verbatim>\<open>low + high\<close> is rounded and its half is
  exact. The rest is \<open>search_loop\<close> and \<open>compressToTargetSize\<close> word for word.
\<close>

function search_loop_double ::
  "(real \<Rightarrow> 'b option) \<Rightarrow> ('b \<Rightarrow> nat) \<Rightarrow> real \<Rightarrow> nat \<Rightarrow> 'b search \<Rightarrow> error + 'b search" where
  "search_loop_double canvasToBlob blob_size targetBytes i s =
     (if i < 8 then
        (let mid = double_round (low s + high s) / 2 in
         case canvasToBlob mid of
           None \<Rightarrow> Inl FailedToCreateBlob
         | Some blob \<Rightarrow>
             if real (blob_size blob) \<le> targetBytes
             then search_loop_double canvasToBlob blob_size targetBytes (i + 1)
                    (s\<lparr> bestBlob := Some blob, low := mid, encoded := encoded s @ [mid] \<rparr>)
             else search_loop_double canvasToBlob blob_size targetBytes (i + 1)
                    (s\<lparr> high := mid, encoded := encoded s @ [mid] \<rparr>))
      else Inr s)"
  by pat_completeness auto
termination
  by (relation "measure (\<lambda>(canvasToBlob, blob_size, targetBytes, i, s). 8 - i)") auto

declare search_loop_double.simps [simp del]

definition compressToTargetSize_double ::
  "(real \<Rightarrow> 'b option) \<Rightarrow> ('b \<Rightarrow> nat) \<Rightarrow> real \<Rightarrow> real \<Rightarrow> real \<Rightarrow> error + 'b \<times> real list" where
  "compressToTargetSize_double canvasToBlob blob_size targetBytes minQuality maxQuality =
     (case search_loop_double canvasToBlob blob_size targetBytes 0
             (search_start minQuality maxQuality) of
        Inl e \<Rightarrow> Inl e
      | Inr s \<Rightarrow>
          (case bestBlob s of
             Some blob \<Rightarrow> Inr (blob, encoded s)
           | None \<Rightarrow>
               (case canvasToBlob minQuality of
                  None \<Rightarrow> Inl FailedToCreateBlob
                | Some blob \<Rightarrow> Inr (blob, encoded s @ [minQuality]))))"

text \<open>
  One step of the specified search on doubles and the state after \<open>n\<close> of them, as
  \<open>probe\<close> and \<open>bisect\<close> above.
\<close>

definition probe_double :: "(real \<Rightarrow> 'b) \<Rightarrow> ('b \<Rightarrow> nat) \<Rightarrow> real \<Rightarrow> 'b search \<Rightarrow> 'b search" where
  "probe_double encode blob_size targetBytes s =
     (if real (blob_size (encode (double_round (low s + high s) / 2))) \<le> targetBytes
      then s\<lparr> bestBlob := Some (encode (double_round (low s + high s) / 2)),
              low := double_round (low s + high s) / 2,
              encoded := encoded s @ [double_round (low s + high s) / 2] \<rparr>
      else s\<lparr> high := double_round (low s + high s) / 2,
              encoded := encoded s @ [double_round (low s + high s) / 2] \<rparr>)"

definition bisect_double ::
  "(real \<Rightarrow> 'b) \<Rightarrow> ('b \<Rightarrow> nat) \<Rightarrow> real \<Rightarrow> real \<Rightarrow> real \<Rightarrow> nat \<Rightarrow> 'b search" where
  "bisect_double encode blob_size targetBytes minQ maxQ n =
     (probe_double encode blob_size targetBytes ^^ n) (search_start minQ maxQ)"

text \<open>
  The default qualities of the source, \<^verbatim>\<open>minQuality = 0.1\<close> and
  \<^verbatim>\<open>maxQuality = 0.95\<close>: the doubles nearest to the two decimal literals.
\<close>

definition minQuality_default :: real where
  "minQuality_default = double_round (1 / 10)"

definition maxQuality_default :: real where
  "maxQuality_default = double_round (95 / 100)"

text \<open>
  The invariant of the search on doubles after \<open>n\<close> probes: the interval lies in
  \<open>[minQ, maxQ]\<close>, its width is \<open>(maxQ - minQ)/2^n\<close> up to the rounding accumulated so far,
  and every probed quality lies strictly between \<open>minQ\<close> and \<open>maxQ\<close>.
\<close>

definition search_bounds :: "real \<Rightarrow> real \<Rightarrow> nat \<Rightarrow> 'b search \<Rightarrow> bool" where
  "search_bounds minQ maxQ n s \<longleftrightarrow>
     minQ \<le> low s \<and> high s \<le> maxQ
     \<and> \<bar>high s - low s - (maxQ - minQ) / 2 ^ n\<bar> \<le> 1 / 2 ^ 53 - 1 / 2 ^ (53 + n)
     \<and> (\<forall>q \<in> set (encoded s). minQ < q \<and> q < maxQ)"

section \<open>Crop: the rectangle and its gestures\<close>

text \<open>
  The \<^verbatim>\<open>CropArea\<close> of \<^verbatim>\<open>CropImage.tsx\<close>, in the coordinates of the unrotated source.
  Its fields \<^verbatim>\<open>x\<close>, \<^verbatim>\<open>y\<close>, \<^verbatim>\<open>width\<close>, \<^verbatim>\<open>height\<close> carry the prefix \<open>crop_\<close> here.
\<close>

record CropArea =
  crop_x :: real
  crop_y :: real
  crop_width :: real
  crop_height :: real

text \<open>
  The four handles \<^verbatim>\<open>handleMouseDown\<close> is called with, and the strings they are in the
  source; \<^verbatim>\<open>isResizing.includes('e')\<close> is a test on that string.
\<close>

datatype handle = NW | NE | SW | SE

fun handle_name :: "handle \<Rightarrow> string" where
  "handle_name NW = ''nw''"
| "handle_name NE = ''ne''"
| "handle_name SW = ''sw''"
| "handle_name SE = ''se''"

definition str_includes :: "string \<Rightarrow> char \<Rightarrow> bool" where
  "str_includes s c = (c \<in> set s)"

text \<open>
  \<^verbatim>\<open>selectedPreset.ratio\<close> is a number or \<^verbatim>\<open>null\<close>; as a condition it is false for
  \<^verbatim>\<open>null\<close> and for \<open>0\<close>.
\<close>

definition truthy :: "real option \<Rightarrow> bool" where
  "truthy ratio = (case ratio of None \<Rightarrow> False | Some r \<Rightarrow> r \<noteq> 0)"

text \<open>
  The state of the component that the gestures read and write. \<open>selectedRatio\<close> is
  \<^verbatim>\<open>selectedPreset.ratio\<close>. The image is loaded and does not change, so it is a
  parameter of the functions below, and \<^verbatim>\<open>if (!originalImage) return\<close> is not taken.
\<close>

record crop_state =
  cropArea :: CropArea
  cropStart :: CropArea
  isDragging :: bool
  isResizing :: "handle option"
  dragStart :: "real \<times> real"
  selectedRatio :: "real option"

text \<open>
  \<^verbatim>\<open>updateScale\<close>: \<^verbatim>\<open>setDisplayScale(Math.min(scaleX, scaleY, 1))\<close>, run when the image
  loads.
\<close>

definition displayScale :: "image \<Rightarrow> real" where
  "displayScale img =
     (let maxWidth = 550; maxHeight = 380;
          scaleX = maxWidth / real (naturalWidth img);
          scaleY = maxHeight / real (naturalHeight img)
      in min (min scaleX scaleY) 1)"

text \<open>
  The effect ``Initialize crop area when image loads'', with the dependencies
  \<^verbatim>\<open>[originalImage, selectedPreset.ratio]\<close>:
  \<^verbatim>\<open>
  let cropW = w * 0.8; let cropH = h * 0.8;
  if (selectedPreset.ratio) {
    if (cropW / cropH > selectedPreset.ratio) cropW = cropH * selectedPreset.ratio;
    else cropH = cropW / selectedPreset.ratio;
  }
  setCropArea({ x: (w - cropW) / 2, y: (h - cropH) / 2, width: cropW, height: cropH });
  \<close>
\<close>

definition initCropArea :: "image \<Rightarrow> real option \<Rightarrow> CropArea" where
  "initCropArea img ratio =
     (let w = real (naturalWidth img);
          h = real (naturalHeight img);
          cropW = w * (8 / 10);
          cropH = h * (8 / 10);
          cropW' = (if truthy ratio \<and> cropW / cropH > the ratio then cropH * the ratio else cropW);
          cropH' = (if truthy ratio \<and> \<not> cropW / cropH > the ratio then cropW / the ratio else cropH)
      in \<lparr> crop_x = (w - cropW') / 2, crop_y = (h - cropH') / 2,
           crop_width = cropW', crop_height = cropH' \<rparr>)"

text \<open>
  \<^verbatim>\<open>handlePresetChange\<close>: the new preset is stored, and for a preset with a ratio the
  rectangle is resized around its centre and clamped into the image.
\<close>

definition handlePresetChange :: "image \<Rightarrow> crop_state \<Rightarrow> real option \<Rightarrow> crop_state" where
  "handlePresetChange img s preset =
     (if truthy preset then
        (let w = real (naturalWidth img);
             h = real (naturalHeight img);
             newW0 = crop_width (cropArea s);
             newH0 = crop_height (cropArea s);
             newW = (if newW0 / newH0 > the preset then newH0 * the preset else newW0);
             newH = (if newW0 / newH0 > the preset then newH0 else newW0 / the preset);
             centerX = crop_x (cropArea s) + crop_width (cropArea s) / 2;
             centerY = crop_y (cropArea s) + crop_height (cropArea s) / 2;
             newX = max 0 (min (w - newW) (centerX - newW / 2));
             newY = max 0 (min (h - newH) (centerY - newH / 2))
         in s\<lparr> selectedRatio := preset,
                cropArea := \<lparr> crop_x = newX, crop_y = newY, crop_width = newW, crop_height = newH \<rparr> \<rparr>)
      else s\<lparr> selectedRatio := preset \<rparr>)"

text \<open>
  What a click on a preset does to the state: \<^verbatim>\<open>handlePresetChange\<close>, and then, when
  the ratio is not the one before, React runs the effect above again, since
  \<^verbatim>\<open>selectedPreset.ratio\<close> is one of its dependencies; the effect sets the rectangle
  last.
\<close>

definition presetChanged :: "image \<Rightarrow> crop_state \<Rightarrow> real option \<Rightarrow> crop_state" where
  "presetChanged img s preset =
     (if selectedRatio s \<noteq> preset
      then (handlePresetChange img s preset)\<lparr> cropArea := initCropArea img preset \<rparr>
      else handlePresetChange img s preset)"

text \<open>
  \<^verbatim>\<open>handleMouseDown(e, handle?)\<close>: \<^verbatim>\<open>if (handle) setIsResizing(handle); else
  setIsDragging(true)\<close>, then the pointer position and a copy of the rectangle are kept.
\<close>

definition handleMouseDown :: "crop_state \<Rightarrow> handle option \<Rightarrow> real \<Rightarrow> real \<Rightarrow> crop_state" where
  "handleMouseDown s handle clientX clientY =
     (case handle of
        Some h \<Rightarrow> s\<lparr> isResizing := Some h, dragStart := (clientX, clientY), cropStart := cropArea s \<rparr>
      | None \<Rightarrow> s\<lparr> isDragging := True, dragStart := (clientX, clientY), cropStart := cropArea s \<rparr>)"

text \<open>
  The branch \<^verbatim>\<open>if (isDragging)\<close> of \<^verbatim>\<open>handleMouseMove\<close>:
  \<^verbatim>\<open>
  const newX = Math.max(0, Math.min(imgW - cropStart.width, cropStart.x + deltaX));
  const newY = Math.max(0, Math.min(imgH - cropStart.height, cropStart.y + deltaY));
  setCropArea({ ...cropStart, x: newX, y: newY });
  \<close>
\<close>

definition dragArea :: "real \<Rightarrow> real \<Rightarrow> CropArea \<Rightarrow> real \<Rightarrow> real \<Rightarrow> CropArea" where
  "dragArea imgW imgH cropStart' deltaX deltaY =
     (let newX = max 0 (min (imgW - crop_width cropStart') (crop_x cropStart' + deltaX));
          newY = max 0 (min (imgH - crop_height cropStart') (crop_y cropStart' + deltaY))
      in cropStart'\<lparr> crop_x := newX, crop_y := newY \<rparr>)"

text \<open>
  The \<^verbatim>\<open>switch (isResizing)\<close> of \<^verbatim>\<open>handleMouseMove\<close>, one equation per case, with the
  assignments to \<^verbatim>\<open>newArea\<close> in the order of the source.
\<close>

fun resizeArea :: "handle \<Rightarrow> real \<Rightarrow> real \<Rightarrow> CropArea \<Rightarrow> real \<Rightarrow> real \<Rightarrow> CropArea" where
  "resizeArea SE imgW imgH cropStart' deltaX deltaY =
     cropStart'\<lparr>
       crop_width := max 50 (min (imgW - crop_x cropStart') (crop_width cropStart' + deltaX)),
       crop_height := max 50 (min (imgH - crop_y cropStart') (crop_height cropStart' + deltaY)) \<rparr>"
| "resizeArea SW imgW imgH cropStart' deltaX deltaY =
     (let newWidth = max 50 (crop_width cropStart' - deltaX);
          newArea = cropStart'\<lparr>
            crop_x := crop_x cropStart' + crop_width cropStart' - newWidth,
            crop_width := newWidth,
            crop_height := max 50 (min (imgH - crop_y cropStart') (crop_height cropStart' + deltaY)) \<rparr>
      in if crop_x newArea < 0
         then newArea\<lparr> crop_width := crop_width newArea + crop_x newArea, crop_x := 0 \<rparr>
         else newArea)"
| "resizeArea NE imgW imgH cropStart' deltaX deltaY =
     (let newHeight = max 50 (crop_height cropStart' - deltaY);
          newArea = cropStart'\<lparr>
            crop_width := max 50 (min (imgW - crop_x cropStart') (crop_width cropStart' + deltaX)),
            crop_y := crop_y cropStart' + crop_height cropStart' - newHeight,
            crop_height := newHeight \<rparr>
      in if crop_y newArea < 0
         then newArea\<lparr> crop_height := crop_height newArea + crop_y newArea, crop_y := 0 \<rparr>
         else newArea)"
| "resizeArea NW imgW imgH cropStart' deltaX deltaY =
     (let newWidth = max 50 (crop_width cropStart' - deltaX);
          newHeight = max 50 (crop_height cropStart' - deltaY);
          newArea = cropStart'\<lparr>
            crop_x := crop_x cropStart' + crop_width cropStart' - newWidth,
            crop_y := crop_y cropStart' + crop_height cropStart' - newHeight,
            crop_width := newWidth,
            crop_height := newHeight \<rparr>;
          newArea1 = (if crop_x newArea < 0
            then newArea\<lparr> crop_width := crop_width newArea + crop_x newArea, crop_x := 0 \<rparr>
            else newArea)
      in if crop_y newArea1 < 0
         then newArea1\<lparr> crop_height := crop_height newArea1 + crop_y newArea1, crop_y := 0 \<rparr>
         else newArea1)"

text \<open>
  The block ``Apply aspect ratio constraint'' of \<^verbatim>\<open>handleMouseMove\<close>:
  \<^verbatim>\<open>
  if (selectedPreset.ratio) {
    const targetRatio = selectedPreset.ratio;
    if (isResizing.includes('e') || isResizing.includes('w'))
      newArea.height = newArea.width / targetRatio;
    else newArea.width = newArea.height * targetRatio;
    if (newArea.x + newArea.width > imgW) {
      newArea.width = imgW - newArea.x; newArea.height = newArea.width / targetRatio; }
    if (newArea.y + newArea.height > imgH) {
      newArea.height = imgH - newArea.y; newArea.width = newArea.height * targetRatio; }
  }
  \<close>
\<close>

definition applyAspectRatio :: "handle \<Rightarrow> real option \<Rightarrow> real \<Rightarrow> real \<Rightarrow> CropArea \<Rightarrow> CropArea" where
  "applyAspectRatio h ratio imgW imgH newArea =
     (if truthy ratio then
        (let targetRatio = the ratio;
             a1 = (if str_includes (handle_name h) CHR ''e'' \<or> str_includes (handle_name h) CHR ''w''
                   then newArea\<lparr> crop_height := crop_width newArea / targetRatio \<rparr>
                   else newArea\<lparr> crop_width := crop_height newArea * targetRatio \<rparr>);
             a2 = (if crop_x a1 + crop_width a1 > imgW
                   then a1\<lparr> crop_width := imgW - crop_x a1,
                           crop_height := (imgW - crop_x a1) / targetRatio \<rparr>
                   else a1);
             a3 = (if crop_y a2 + crop_height a2 > imgH
                   then a2\<lparr> crop_height := imgH - crop_y a2,
                           crop_width := (imgH - crop_y a2) * targetRatio \<rparr>
                   else a2)
         in a3)
      else newArea)"

text \<open>
  \<^verbatim>\<open>handleMouseMove\<close>: nothing happens unless a gesture is under way; the pointer's
  move since \<^verbatim>\<open>handleMouseDown\<close> is divided by the display scale, and the new
  rectangle is computed from \<^verbatim>\<open>cropStart\<close>, the copy taken at \<^verbatim>\<open>handleMouseDown\<close>.
\<close>

definition handleMouseMove :: "image \<Rightarrow> crop_state \<Rightarrow> real \<Rightarrow> real \<Rightarrow> crop_state" where
  "handleMouseMove img s clientX clientY =
     (if \<not> isDragging s \<and> isResizing s = None then s
      else
        (let deltaX = (clientX - fst (dragStart s)) / displayScale img;
             deltaY = (clientY - snd (dragStart s)) / displayScale img;
             imgW = real (naturalWidth img);
             imgH = real (naturalHeight img)
         in if isDragging s
            then s\<lparr> cropArea := dragArea imgW imgH (cropStart s) deltaX deltaY \<rparr>
            else (case isResizing s of
                    Some h \<Rightarrow>
                      s\<lparr> cropArea := applyAspectRatio h (selectedRatio s) imgW imgH
                                        (resizeArea h imgW imgH (cropStart s) deltaX deltaY) \<rparr>
                  | None \<Rightarrow> s)))"

text \<open>
  \<^verbatim>\<open>handleMouseUp\<close>, also the handler of \<^verbatim>\<open>onMouseLeave\<close>.
\<close>

definition handleMouseUp :: "crop_state \<Rightarrow> crop_state" where
  "handleMouseUp s = s\<lparr> isDragging := False, isResizing := None \<rparr>"

text \<open>
  The events of the crop page that touch the rectangle, and a run of the component over a
  list of them.
\<close>

datatype event =
  MouseDown "handle option" real real
| MouseMove real real
| MouseUp
| PresetChange "real option"

fun step :: "image \<Rightarrow> crop_state \<Rightarrow> event \<Rightarrow> crop_state" where
  "step img s (MouseDown handle clientX clientY) = handleMouseDown s handle clientX clientY"
| "step img s (MouseMove clientX clientY) = handleMouseMove img s clientX clientY"
| "step img s MouseUp = handleMouseUp s"
| "step img s (PresetChange preset) = presetChanged img s preset"

definition run :: "image \<Rightarrow> crop_state \<Rightarrow> event list \<Rightarrow> crop_state" where
  "run img s evs = foldl (step img) s evs"

text \<open>
  The state once the image is loaded, with the preset selected then: the initial values
  of \<^verbatim>\<open>useState\<close>, and the rectangle the effect has set.
\<close>

definition initial_state :: "image \<Rightarrow> real option \<Rightarrow> crop_state" where
  "initial_state img ratio =
     \<lparr> cropArea = initCropArea img ratio,
       cropStart = \<lparr> crop_x = 0, crop_y = 0, crop_width = 0, crop_height = 0 \<rparr>,
       isDragging = False, isResizing = None, dragStart = (0, 0), selectedRatio = ratio \<rparr>"

text \<open>
  The bounds of the specification's invariant, \<open>0 \<le> x\<close>, \<open>0 \<le> y\<close>,
  \<open>x + width \<le> sourceWidth\<close>, \<open>y + height \<le> sourceHeight\<close>; the invariant itself, with
  the minimum size of 50 that the source enforces; and the weaker positivity of the size.
\<close>

definition inside :: "image \<Rightarrow> CropArea \<Rightarrow> bool" where
  "inside img a \<longleftrightarrow>
     0 \<le> crop_x a \<and> 0 \<le> crop_y a
     \<and> crop_x a + crop_width a \<le> real (naturalWidth img)
     \<and> crop_y a + crop_height a \<le> real (naturalHeight img)"

definition crop_invariant :: "image \<Rightarrow> CropArea \<Rightarrow> bool" where
  "crop_invariant img a \<longleftrightarrow> inside img a \<and> 50 \<le> crop_width a \<and> 50 \<le> crop_height a"

definition positive_size :: "CropArea \<Rightarrow> bool" where
  "positive_size a \<longleftrightarrow> 0 < crop_width a \<and> 0 < crop_height a"

text \<open>
  The 1000 by 1000 source of the specification's example.
\<close>

definition img1000 :: image where
  "img1000 = \<lparr> naturalWidth = 1000, naturalHeight = 1000 \<rparr>"

text \<open>
  A gesture event is a pointer event. A ratio is valid when it is absent or positive.
  The component is idle when no gesture is under way; \<open>presets_while_idle\<close> holds of a
  list of events when each preset change in it arrives while the component is idle and
  brings a valid ratio.
\<close>

fun is_gesture :: "event \<Rightarrow> bool" where
  "is_gesture (PresetChange preset) = False"
| "is_gesture e = True"

definition valid_ratio :: "real option \<Rightarrow> bool" where
  "valid_ratio ratio = (case ratio of None \<Rightarrow> True | Some r \<Rightarrow> 0 < r)"

definition idle :: "crop_state \<Rightarrow> bool" where
  "idle s \<longleftrightarrow> \<not> isDragging s \<and> isResizing s = None"

fun presets_while_idle :: "image \<Rightarrow> crop_state \<Rightarrow> event list \<Rightarrow> bool" where
  "presets_while_idle img s [] = True"
| "presets_while_idle img s (PresetChange preset # evs) =
     (idle s \<and> valid_ratio preset \<and> presets_while_idle img (step img s (PresetChange preset)) evs)"
| "presets_while_idle img s (e # evs) = presets_while_idle img (step img s e) evs"

text \<open>
  Predicates of the proofs. \<open>resizable\<close> is what the \<^verbatim>\<open>switch\<close> leaves for the aspect
  block; \<open>in_ratio\<close> is a rectangle inside the image, of positive size and of ratio \<open>r\<close>;
  \<open>anchored\<close> is a rectangle of positive size at non-negative coordinates;
  \<open>during_gesture P\<close> holds when the rectangle satisfies \<open>P\<close> and during a gesture so
  does the copy it started from.
\<close>

definition resizable :: "image \<Rightarrow> CropArea \<Rightarrow> bool" where
  "resizable img b \<longleftrightarrow>
     0 \<le> crop_x b \<and> 0 \<le> crop_y b \<and> crop_x b < real (naturalWidth img)
     \<and> crop_y b < real (naturalHeight img) \<and> 0 < crop_width b"

definition in_ratio :: "image \<Rightarrow> real \<Rightarrow> CropArea \<Rightarrow> bool" where
  "in_ratio img r a \<longleftrightarrow> inside img a \<and> positive_size a \<and> crop_width a = crop_height a * r"

definition anchored :: "CropArea \<Rightarrow> bool" where
  "anchored a \<longleftrightarrow> 0 \<le> crop_x a \<and> 0 \<le> crop_y a \<and> positive_size a"

definition during_gesture :: "(CropArea \<Rightarrow> bool) \<Rightarrow> crop_state \<Rightarrow> bool" where
  "during_gesture P s \<longleftrightarrow> P (cropArea s) \<and> (idle s \<or> P (cropStart s))"

definition ratio_invariant :: "image \<Rightarrow> crop_state \<Rightarrow> bool" where
  "ratio_invariant img s =
     (case selectedRatio s of
        None \<Rightarrow> during_gesture anchored s
      | Some r \<Rightarrow> 0 < r \<and> during_gesture (in_ratio img r) s)"

section \<open>Crop: the extraction\<close>



text \<open>
  Two more sources for the examples, and the gestures that select the whole frame of a
  source shown at scale 1: the handle \<open>nw\<close> pulled far up and to the left, then the
  handle \<open>se\<close> pulled far down and to the right.
\<close>

definition img40 :: image where
  "img40 = \<lparr> naturalWidth = 40, naturalHeight = 40 \<rparr>"



section \<open>Theorems\<close>

subsection \<open>The step-down loop\<close>

lemma stepDown_unfold:
  "w > targetW * 2 \<or> h > targetH * 2 \<Longrightarrow>
   stepDown targetW targetH (w, h) =
     (max (w div 2) targetW, max (h div 2) targetH)
       # stepDown targetW targetH (max (w div 2) targetW, max (h div 2) targetH)"
  by (subst stepDown.simps) (simp add: Let_def)

lemma stepDown_stop:
  "\<not> (w > targetW * 2 \<or> h > targetH * 2) \<Longrightarrow> stepDown targetW targetH (w, h) = []"
  by (subst stepDown.simps) simp

lemma stepDown_length_aux:
  "length (stepDown targetW targetH (w, h)) \<le> stepDown_measure (targetW, targetH, w, h)"
proof (induction targetW targetH "(w, h)" arbitrary: w h rule: stepDown.induct)
  case (1 targetW targetH w h)
  show ?case
  proof (cases "w > targetW * 2 \<or> h > targetH * 2")
    case False
    then show ?thesis by (simp add: stepDown_stop)
  next
    case True
    let ?hw = "max (w div 2) targetW" and ?hh = "max (h div 2) targetH"
    have ih: "length (stepDown targetW targetH (?hw, ?hh))
                \<le> stepDown_measure (targetW, targetH, ?hw, ?hh)"
      using "1.hyps" [OF True refl refl] .
    have dec: "stepDown_measure (targetW, targetH, ?hw, ?hh)
                 < stepDown_measure (targetW, targetH, w, h)"
      using True by (auto simp: max_def)
    have "length (stepDown targetW targetH (w, h))
            = Suc (length (stepDown targetW targetH (?hw, ?hh)))"
      using True by (simp add: stepDown_unfold)
    with ih dec show ?thesis by linarith
  qed
qed

lemma stepDown_ge_target_aux:
  "d \<in> set (stepDown targetW targetH (w, h)) \<Longrightarrow> targetW \<le> fst d \<and> targetH \<le> snd d"
proof (induction targetW targetH "(w, h)" arbitrary: w h rule: stepDown.induct)
  case (1 targetW targetH w h)
  show ?case
  proof (cases "w > targetW * 2 \<or> h > targetH * 2")
    case False
    with "1.prems" show ?thesis by (simp add: stepDown_stop)
  next
    case True
    let ?hw = "max (w div 2) targetW" and ?hh = "max (h div 2) targetH"
    from "1.prems" True
    have "d = (?hw, ?hh) \<or> d \<in> set (stepDown targetW targetH (?hw, ?hh))"
      by (simp add: stepDown_unfold)
    then show ?thesis
    proof
      assume "d = (?hw, ?hh)"
      then show ?thesis by simp
    next
      assume "d \<in> set (stepDown targetW targetH (?hw, ?hh))"
      then show ?thesis using "1.hyps" [OF True refl refl] by simp
    qed
  qed
qed

lemma stepDown_last_aux:
  "last ((w, h) # stepDown targetW targetH (w, h)) = (w', h') \<Longrightarrow>
     \<not> (w' > targetW * 2 \<or> h' > targetH * 2)"
proof (induction targetW targetH "(w, h)" arbitrary: w h rule: stepDown.induct)
  case (1 targetW targetH w h)
  show ?case
  proof (cases "w > targetW * 2 \<or> h > targetH * 2")
    case False
    with "1.prems" show ?thesis by (simp add: stepDown_stop)
  next
    case True
    let ?hw = "max (w div 2) targetW" and ?hh = "max (h div 2) targetH"
    from "1.prems" True
    have "last ((?hw, ?hh) # stepDown targetW targetH (?hw, ?hh)) = (w', h')"
      by (simp add: stepDown_unfold)
    then show ?thesis using "1.hyps" [OF True refl refl] by simp
  qed
qed

text \<open>
  Claim C4. The step-down loop ends: it creates at most \<open>w + h\<close> canvases from a
  \<open>w \<times> h\<close> source (the function is total by its termination proof). No canvas it
  creates is narrower than the target width or lower than the target height, and the
  canvas it ends on is within a factor of two of the target in both dimensions.
\<close>

theorem stepDown_terminates_above_target:
  "length (stepDown targetW targetH (w, h)) \<le> w + h
   \<and> (\<forall>d \<in> set (stepDown targetW targetH (w, h)). targetW \<le> fst d \<and> targetH \<le> snd d)
   \<and> \<not> (fst (lastCanvas targetW targetH (w, h)) > targetW * 2
         \<or> snd (lastCanvas targetW targetH (w, h)) > targetH * 2)"
proof -
  have "length (stepDown targetW targetH (w, h)) \<le> stepDown_measure (targetW, targetH, w, h)"
    by (rule stepDown_length_aux)
  also have "\<dots> \<le> w + h" by simp
  finally have a: "length (stepDown targetW targetH (w, h)) \<le> w + h" .
  have b: "\<forall>d \<in> set (stepDown targetW targetH (w, h)). targetW \<le> fst d \<and> targetH \<le> snd d"
    using stepDown_ge_target_aux by blast
  obtain w' h' where l: "lastCanvas targetW targetH (w, h) = (w', h')"
    by (cases "lastCanvas targetW targetH (w, h)")
  then have "\<not> (w' > targetW * 2 \<or> h' > targetH * 2)"
    unfolding lastCanvas_def by (rule stepDown_last_aux)
  with l have c: "\<not> (fst (lastCanvas targetW targetH (w, h)) > targetW * 2
         \<or> snd (lastCanvas targetW targetH (w, h)) > targetH * 2)" by simp
  from a b c show ?thesis by blast
qed

lemma stepDown_example:
  "stepDown 300 200 (4096, 4096) = [(2048, 2048), (1024, 1024), (512, 512), (300, 256)]"
  by (simp add: stepDown_unfold stepDown_stop)

theorem stepDown_terminates_above_target_witness:
  "(300, 256) \<in> set (stepDown 300 200 (4096, 4096))
   \<and> (300::nat) \<le> fst (300, 256 :: nat) \<and> (200::nat) \<le> snd (300 :: nat, 256)
   \<and> length (stepDown 300 200 (4096, 4096)) \<le> 4096 + 4096"
  using stepDown_terminates_above_target [of 300 200 4096 4096]
  by (simp add: stepDown_example)

subsection \<open>The rotation accumulator\<close>

lemma js_rem_bounds: "b \<noteq> 0 \<Longrightarrow> - \<bar>b\<bar> < js_rem a b \<and> js_rem a b < \<bar>b\<bar>"
proof -
  assume b: "b \<noteq> 0"
  have m: "0 \<le> \<bar>a\<bar> mod \<bar>b\<bar> \<and> \<bar>a\<bar> mod \<bar>b\<bar> < \<bar>b\<bar>" using b by simp
  show ?thesis
    using m by (cases "a < 0"; cases "a = 0") (auto simp: js_rem_def sgn_if)
qed

text \<open>
  Claim C9 as stated fails: one click on the rotate-left button stores \<open>-90\<close>, which is
  outside \<open>[0, 360)\<close>, because \<^verbatim>\<open>%\<close> keeps the sign of the dividend.
\<close>

theorem rotation_not_normalized:
  "\<not> (0 \<le> rotateAll [-90] \<and> rotateAll [-90] < 360)"
  by (simp add: rotateAll_def handleRotate_def js_rem_def)

text \<open>
  Claim C9, amended. After every sequence of rotate commands starting from \<open>0\<close> the
  stored angle lies strictly between \<open>-360\<close> and \<open>360\<close>.
\<close>

theorem rotation_within_open_range:
  "- 360 < rotateAll cmds \<and> rotateAll cmds < 360"
proof (cases cmds rule: rev_cases)
  case Nil
  then show ?thesis by (simp add: rotateAll_def)
next
  case (snoc cs c)
  then have "rotateAll cmds = js_rem (foldl handleRotate 0 cs + c) 360"
    by (simp add: rotateAll_def handleRotate_def)
  then show ?thesis using js_rem_bounds [of 360 "foldl handleRotate 0 cs + c"] by simp
qed

subsection \<open>Rounding to doubles\<close>

lemma binade_ge2: "2 \<le> x \<Longrightarrow> binade x = binade (x / 2) + 1"
  by (subst binade.simps) simp

lemma binade_lt1: "0 < x \<Longrightarrow> x < 1 \<Longrightarrow> binade x = binade (x * 2) - 1"
  by (subst binade.simps) simp

lemma binade_unit: "1 \<le> x \<Longrightarrow> x < 2 \<Longrightarrow> binade x = 0"
  by (subst binade.simps) simp

lemma pow2_pos: "0 < pow2 e"
  by (simp add: pow2_def)

lemma pow2_Suc: "pow2 (e + 1) = 2 * pow2 e"
proof (cases "0 \<le> e")
  case True
  then show ?thesis by (simp add: pow2_def nat_add_distrib)
next
  case False
  then have "nat (- e) = Suc (nat (- (e + 1)))" by simp
  then show ?thesis using False by (simp add: pow2_def)
qed

lemma pow2_pred: "pow2 (e - 1) = pow2 e / 2"
  using pow2_Suc [of "e - 1"] by simp

lemma pow2_mono: "a \<le> b \<Longrightarrow> pow2 a \<le> pow2 b"
proof -
  assume "a \<le> b"
  then obtain k where b: "b = a + int k" using zle_iff_zadd by blast
  have "pow2 a \<le> pow2 (a + int k)"
  proof (induction k)
    case 0
    then show ?case by simp
  next
    case (Suc k)
    have "a + int (Suc k) = (a + int k) + 1" by simp
    then have "pow2 (a + int (Suc k)) = 2 * pow2 (a + int k)"
      by (simp only: pow2_Suc)
    with Suc pow2_pos [of "a + int k"] show ?case by linarith
  qed
  with b show ?thesis by simp
qed

lemma binade_bounds: "0 < x \<Longrightarrow> pow2 (binade x) \<le> x \<and> x < pow2 (binade x + 1)"
proof (induction x rule: binade.induct)
  case (1 x)
  consider "2 \<le> x" | "x < 1" | "1 \<le> x \<and> x < 2" by linarith
  then show ?case
  proof cases
    case 1
    with "1.prems" have ih: "pow2 (binade (x / 2)) \<le> x / 2 \<and> x / 2 < pow2 (binade (x / 2) + 1)"
      using "1.IH"(1) by simp
    from 1 have b: "binade x = binade (x / 2) + 1" by (rule binade_ge2)
    have "pow2 (binade x) = 2 * pow2 (binade (x / 2))"
      and "pow2 (binade x + 1) = 2 * pow2 (binade (x / 2) + 1)"
      unfolding b by (simp_all only: pow2_Suc)
    with ih show ?thesis by linarith
  next
    case 2
    with "1.prems" have ih: "pow2 (binade (x * 2)) \<le> x * 2 \<and> x * 2 < pow2 (binade (x * 2) + 1)"
      using "1.IH"(2) by simp
    from 2 "1.prems" have b: "binade x = binade (x * 2) - 1" by (simp add: binade_lt1)
    have "pow2 (binade x) = pow2 (binade (x * 2)) / 2"
      unfolding b by (simp only: pow2_pred)
    moreover have "pow2 (binade x + 1) = pow2 (binade (x * 2) + 1) / 2"
      unfolding b using pow2_pred [of "binade (x * 2) + 1"] by simp
    ultimately show ?thesis using ih by linarith
  next
    case 3
    then have "binade x = 0" by (simp add: binade_unit)
    with 3 show ?thesis by (simp add: pow2_def)
  qed
qed

lemma round_half_even_error: "\<bar>real_of_int (round_half_even y) - y\<bar> \<le> 1 / 2"
  unfolding round_half_even_def by (auto; linarith)

lemma double_round_error:
  assumes "0 < x"
  shows "\<bar>double_round x - x\<bar> \<le> pow2 (binade x - 53)"
proof -
  let ?u = "pow2 (binade x - 52)"
  have u: "0 < ?u" by (rule pow2_pos)
  have "double_round x - x = (real_of_int (round_half_even (x / ?u)) - x / ?u) * ?u"
    using assms u by (simp add: double_round_def algebra_simps)
  then have "\<bar>double_round x - x\<bar> = \<bar>real_of_int (round_half_even (x / ?u)) - x / ?u\<bar> * ?u"
    using u by (simp add: abs_mult)
  also have "\<dots> \<le> 1 / 2 * ?u"
    using round_half_even_error [of "x / ?u"] u by (intro mult_right_mono) simp_all
  also have "\<dots> = pow2 (binade x - 53)"
    using pow2_pred [of "binade x - 52"] by simp
  finally show ?thesis .
qed

lemma double_round_error_below_two:
  assumes "0 \<le> x" and "x < 2"
  shows "\<bar>double_round x - x\<bar> \<le> 1 / 2 ^ 53"
proof (cases "x = 0")
  case True
  then show ?thesis by (simp add: double_round_def)
next
  case False
  with assms have pos: "0 < x" by simp
  have "pow2 (binade x) < pow2 1"
    using binade_bounds [OF pos] assms(2) by (simp add: pow2_def)
  then have "binade x \<le> 0"
    using pow2_mono [of 1 "binade x"] by (cases "binade x \<le> 0") auto
  then have "pow2 (binade x - 53) \<le> pow2 (- 53)" by (intro pow2_mono) simp
  also have "pow2 (- 53) = 1 / 2 ^ 53" by (simp add: pow2_def)
  finally show ?thesis using double_round_error [OF pos] by linarith
qed

lemmas double_eval =
  double_round_def binade_lt1 binade_unit binade_ge2 pow2_def round_half_even_def

subsection \<open>The Fit Compositor\<close>

lemma Math_round_round: "Math_round v = round v"
  by (simp add: Math_round_def round_def)

lemma Math_round_le_int: "v \<le> real_of_int n \<Longrightarrow> Math_round v \<le> n"
  unfolding Math_round_def by linarith

lemma Math_round_half: "Math_round (real_of_int d / 2) = (d + 1) div 2"
proof -
  have "real_of_int d / 2 + 1 / 2 = real_of_int (d + 1) / real_of_int 2" by simp
  then have "Math_round (real_of_int d / 2) = \<lfloor>real_of_int (d + 1) / real_of_int 2\<rfloor>"
    by (simp only: Math_round_def)
  also have "\<dots> = (d + 1) div 2" by (rule floor_divide_of_int_eq)
  finally show ?thesis .
qed

lemma Math_round_nat_mult_nonneg: "0 \<le> v \<Longrightarrow> 0 \<le> Math_round v"
  unfolding Math_round_def by simp

lemma fit_scaled_le:
  assumes "0 < ow" "0 < oh"
  shows "real ow * min (real cw / real ow) (real ch / real oh) \<le> real cw"
    and "real oh * min (real cw / real ow) (real ch / real oh) \<le> real ch"
proof -
  have "real ow * min (real cw / real ow) (real ch / real oh) \<le> real ow * (real cw / real ow)"
    by (rule mult_left_mono) simp_all
  also have "\<dots> = real cw" using assms by simp
  finally show "real ow * min (real cw / real ow) (real ch / real oh) \<le> real cw" .
  have "real oh * min (real cw / real ow) (real ch / real oh) \<le> real oh * (real ch / real oh)"
    by (rule mult_left_mono) simp_all
  also have "\<dots> = real ch" using assms by simp
  finally show "real oh * min (real cw / real ow) (real ch / real oh) \<le> real ch" .
qed

lemma centre_offset_fits:
  assumes "s \<le> int c"
  shows "Math_round ((real c - real_of_int s) / 2) + s \<le> int c"
proof -
  have "real c - real_of_int s = real_of_int (int c - s)" by simp
  then have "Math_round ((real c - real_of_int s) / 2) = (int c - s + 1) div 2"
    using Math_round_half [of "int c - s"] by simp
  then show ?thesis using assms by linarith
qed

lemma fitOnCanvas_within:
  assumes "0 < ow" "0 < oh"
  shows "scaledWidth (fitOnCanvas ow oh (cw, ch) ori fmt) \<le> int cw
       \<and> scaledHeight (fitOnCanvas ow oh (cw, ch) ori fmt) \<le> int ch
       \<and> offsetX (fitOnCanvas ow oh (cw, ch) ori fmt)
           + scaledWidth (fitOnCanvas ow oh (cw, ch) ori fmt) \<le> int cw
       \<and> offsetY (fitOnCanvas ow oh (cw, ch) ori fmt)
           + scaledHeight (fitOnCanvas ow oh (cw, ch) ori fmt) \<le> int ch"
proof -
  let ?sc = "min (real cw / real ow) (real ch / real oh)"
  have w: "Math_round (real ow * ?sc) \<le> int cw"
    using fit_scaled_le(1) [OF assms, of cw ch] by (intro Math_round_le_int) simp
  have h: "Math_round (real oh * ?sc) \<le> int ch"
    using fit_scaled_le(2) [OF assms, of cw ch] by (intro Math_round_le_int) simp
  show ?thesis
    using w h centre_offset_fits [OF w] centre_offset_fits [OF h]
    by (simp add: fitOnCanvas_def Let_def)
qed

lemma processImage_canvas:
  "\<exists>cw ch ori. processImage img fmt requested
       = fitOnCanvas (naturalWidth img) (naturalHeight img) (cw, ch) ori fmt
     \<and> canvasWidth (processImage img fmt requested) = cw
     \<and> canvasHeight (processImage img fmt requested) = ch"
  by (simp add: processImage_def Let_def fitOnCanvas_def)

text \<open>
  Claim C6. For a source and a canvas of positive dimensions, the scaled image is no wider
  and no higher than the canvas, and placed at its offset it ends inside the canvas:
  \<open>scaledWidth \<le> canvasWidth\<close>, \<open>scaledHeight \<le> canvasHeight\<close>,
  \<open>offsetX + scaledWidth \<le> canvasWidth\<close> and \<open>offsetY + scaledHeight \<le> canvasHeight\<close>.
  This holds of \<open>fitOnCanvas\<close> on any canvas and of \<^verbatim>\<open>processImage\<close> on the canvas of
  its output format.
\<close>

theorem fit_within_canvas:
  assumes "0 < naturalWidth img" and "0 < naturalHeight img" and "0 < cw" and "0 < ch"
  shows "scaledWidth (fitOnCanvas (naturalWidth img) (naturalHeight img) (cw, ch) ori fmt) \<le> int cw
       \<and> scaledHeight (fitOnCanvas (naturalWidth img) (naturalHeight img) (cw, ch) ori fmt) \<le> int ch
       \<and> offsetX (fitOnCanvas (naturalWidth img) (naturalHeight img) (cw, ch) ori fmt)
           + scaledWidth (fitOnCanvas (naturalWidth img) (naturalHeight img) (cw, ch) ori fmt)
           \<le> int cw
       \<and> offsetY (fitOnCanvas (naturalWidth img) (naturalHeight img) (cw, ch) ori fmt)
           + scaledHeight (fitOnCanvas (naturalWidth img) (naturalHeight img) (cw, ch) ori fmt)
           \<le> int ch
       \<and> scaledWidth (processImage img fmt requested)
           \<le> int (canvasWidth (processImage img fmt requested))
       \<and> scaledHeight (processImage img fmt requested)
           \<le> int (canvasHeight (processImage img fmt requested))
       \<and> offsetX (processImage img fmt requested) + scaledWidth (processImage img fmt requested)
           \<le> int (canvasWidth (processImage img fmt requested))
       \<and> offsetY (processImage img fmt requested) + scaledHeight (processImage img fmt requested)
           \<le> int (canvasHeight (processImage img fmt requested))"
proof -
  obtain cw' ch' ori' where p: "processImage img fmt requested
       = fitOnCanvas (naturalWidth img) (naturalHeight img) (cw', ch') ori' fmt"
    and c: "canvasWidth (processImage img fmt requested) = cw'"
      "canvasHeight (processImage img fmt requested) = ch'"
    using processImage_canvas [of img fmt requested] by blast
  show ?thesis
    using fitOnCanvas_within [OF assms(1,2), of cw ch ori fmt]
      fitOnCanvas_within [OF assms(1,2), of cw' ch' ori' fmt]
    unfolding c unfolding p by blast
qed

theorem fit_within_canvas_witness:
  "0 < naturalWidth \<lparr> naturalWidth = 4000, naturalHeight = 3000 \<rparr>
   \<and> 0 < naturalHeight \<lparr> naturalWidth = 4000, naturalHeight = 3000 \<rparr>
   \<and> (0::nat) < 1080
   \<and> scaledWidth (fitOnCanvas 4000 3000 (1080, 1080) Landscape WhatsappDP) \<le> 1080
   \<and> scaledHeight (fitOnCanvas 4000 3000 (1080, 1080) Landscape WhatsappDP) \<le> 1080
   \<and> offsetX (fitOnCanvas 4000 3000 (1080, 1080) Landscape WhatsappDP)
       + scaledWidth (fitOnCanvas 4000 3000 (1080, 1080) Landscape WhatsappDP) \<le> 1080
   \<and> offsetY (fitOnCanvas 4000 3000 (1080, 1080) Landscape WhatsappDP)
       + scaledHeight (fitOnCanvas 4000 3000 (1080, 1080) Landscape WhatsappDP) \<le> 1080"
  using fit_within_canvas
    [of "\<lparr> naturalWidth = 4000, naturalHeight = 3000 \<rparr>" 1080 1080 Landscape WhatsappDP]
  by simp

lemma double_scale_27: "double_round (27 / 100) = 607985949695017 / 2251799813685248"
  by (simp add: double_eval)

lemma fitOnCanvas_double_fields:
  "scale (fitOnCanvas_double w h (cw, ch) ori fmt)
     = min (double_round (real cw / real w)) (double_round (real ch / real h))"
  "scaledWidth (fitOnCanvas_double w h (cw, ch) ori fmt)
     = Math_round (double_round (real w * scale (fitOnCanvas_double w h (cw, ch) ori fmt)))"
  "scaledHeight (fitOnCanvas_double w h (cw, ch) ori fmt)
     = Math_round (double_round (real h * scale (fitOnCanvas_double w h (cw, ch) ori fmt)))"
  "offsetX (fitOnCanvas_double w h (cw, ch) ori fmt)
     = Math_round ((real cw - real_of_int (scaledWidth (fitOnCanvas_double w h (cw, ch) ori fmt))) / 2)"
  "offsetY (fitOnCanvas_double w h (cw, ch) ori fmt)
     = Math_round ((real ch - real_of_int (scaledHeight (fitOnCanvas_double w h (cw, ch) ori fmt))) / 2)"
  by (simp_all add: fitOnCanvas_double_def Let_def)

lemma processImage_double_whatsapp:
  "processImage_double img WhatsappDP None
     = fitOnCanvas_double (naturalWidth img) (naturalHeight img) (1080, 1080)
         (detectOrientation (naturalWidth img) (naturalHeight img)) WhatsappDP"
  by (simp add: processImage_double_def getCanvasDimensions_def WHATSAPP_DP_def Let_def)

lemma fit_example_double:
  "geometry_of (processImage_double \<lparr> naturalWidth = 4000, naturalHeight = 3000 \<rparr> WhatsappDP None) =
     \<lparr> fit_scale = double_round (27 / 100), fit_scaledWidth = 1080, fit_scaledHeight = 810,
       fit_offsetX = 0, fit_offsetY = 135 \<rparr>"
proof -
  let ?r = "fitOnCanvas_double 4000 3000 (1080, 1080) (detectOrientation 4000 3000) WhatsappDP"
  have s: "scale ?r = 607985949695017 / 2251799813685248"
    unfolding fitOnCanvas_double_fields(1) by (simp add: double_eval)
  have w: "scaledWidth ?r = 1080"
    unfolding fitOnCanvas_double_fields(2) s by (simp add: Math_round_def double_eval)
  have h: "scaledHeight ?r = 810"
    unfolding fitOnCanvas_double_fields(3) s by (simp add: Math_round_def double_eval)
  have x: "offsetX ?r = 0"
    unfolding fitOnCanvas_double_fields(4) w by (simp add: Math_round_def)
  have y: "offsetY ?r = 135"
    unfolding fitOnCanvas_double_fields(5) h by (simp add: Math_round_def)
  show ?thesis
    by (simp add: processImage_double_whatsapp geometry_of_def s w h x y double_scale_27)
qed

lemma fit_tie_double:
  "geometry_of (processImage_double \<lparr> naturalWidth = 912, naturalHeight = 209 \<rparr> WhatsappDP None) =
     \<lparr> fit_scale = 666651260630501 / 562949953421312, fit_scaledWidth = 1080,
       fit_scaledHeight = 247, fit_offsetX = 0, fit_offsetY = 417 \<rparr>"
proof -
  let ?r = "fitOnCanvas_double 912 209 (1080, 1080) (detectOrientation 912 209) WhatsappDP"
  have s: "scale ?r = 666651260630501 / 562949953421312"
    unfolding fitOnCanvas_double_fields(1) by (simp add: double_eval)
  have w: "scaledWidth ?r = 1080"
    unfolding fitOnCanvas_double_fields(2) s by (simp add: Math_round_def double_eval)
  have h: "scaledHeight ?r = 247"
    unfolding fitOnCanvas_double_fields(3) s by (simp add: Math_round_def double_eval)
  have x: "offsetX ?r = 0"
    unfolding fitOnCanvas_double_fields(4) w by (simp add: Math_round_def)
  have y: "offsetY ?r = 417"
    unfolding fitOnCanvas_double_fields(5) h by (simp add: Math_round_def)
  show ?thesis
    by (simp add: processImage_double_whatsapp geometry_of_def s w h x y)
qed

lemma double_27_close: "\<bar>double_round (27 / 100) - 27 / 100\<bar> \<le> 1 / 2 ^ 55"
  by (simp add: double_scale_27)

text \<open>
  Claim C3. For a source of positive width and height, the geometry that the code
  computes on doubles, on any canvas, is the specified one: the scale is the smaller of
  the two quotients, the scaled size is the rounded product of the source size and the
  scale, the offsets are the rounded halves of what is left of the canvas; and
  \<^verbatim>\<open>processImage\<close> computes it on the canvas of the chosen output format. A 4000 by 3000
  source on the 1080 by 1080 canvas gets the scale \<^verbatim>\<open>0.27\<close> (the double nearest to
  27/100), a scaled size of 1080 by 810 and the offsets 0 and 135. The rounding of the
  doubles shows on a 912 by 209 source on the same canvas: the product of 209 and the
  scale is a double just below 247.5, so the scaled height is 247 and the offset 417,
  where exact arithmetic would give 247.5, 248 and 416.
\<close>

theorem processImage_geometry:
  assumes "0 < naturalWidth img" and "0 < naturalHeight img"
  shows "geometry_of (fitOnCanvas_double (naturalWidth img) (naturalHeight img) (cw, ch) ori fmt)
           = fit_spec_double (naturalWidth img) (naturalHeight img) cw ch
       \<and> geometry_of (processImage_double img fmt requested)
           = fit_spec_double (naturalWidth img) (naturalHeight img)
               (fst (getCanvasDimensions fmt
                  (case requested of Some ori' \<Rightarrow> ori'
                   | None \<Rightarrow> detectOrientation (naturalWidth img) (naturalHeight img))))
               (snd (getCanvasDimensions fmt
                  (case requested of Some ori' \<Rightarrow> ori'
                   | None \<Rightarrow> detectOrientation (naturalWidth img) (naturalHeight img))))
       \<and> geometry_of (processImage_double \<lparr> naturalWidth = 4000, naturalHeight = 3000 \<rparr> WhatsappDP None)
           = \<lparr> fit_scale = double_round (27 / 100), fit_scaledWidth = 1080, fit_scaledHeight = 810,
               fit_offsetX = 0, fit_offsetY = 135 \<rparr>
       \<and> \<bar>double_round (27 / 100) - 27 / 100\<bar> \<le> 1 / 2 ^ 55
       \<and> geometry_of (processImage_double \<lparr> naturalWidth = 912, naturalHeight = 209 \<rparr> WhatsappDP None)
           = \<lparr> fit_scale = 666651260630501 / 562949953421312, fit_scaledWidth = 1080,
               fit_scaledHeight = 247, fit_offsetX = 0, fit_offsetY = 417 \<rparr>"
proof -
  have a: "geometry_of (fitOnCanvas_double w h (cw', ch') ori'' fmt') = fit_spec_double w h cw' ch'"
    for w h cw' ch' ori'' fmt'
    by (simp add: geometry_of_def fitOnCanvas_double_def fit_spec_double_def spec_scale_def
        Let_def Math_round_round)
  have b: "processImage_double img fmt requested =
      fitOnCanvas_double (naturalWidth img) (naturalHeight img)
        (fst (getCanvasDimensions fmt
           (case requested of Some ori' \<Rightarrow> ori'
            | None \<Rightarrow> detectOrientation (naturalWidth img) (naturalHeight img))),
         snd (getCanvasDimensions fmt
           (case requested of Some ori' \<Rightarrow> ori'
            | None \<Rightarrow> detectOrientation (naturalWidth img) (naturalHeight img))))
        (case requested of Some ori' \<Rightarrow> ori'
         | None \<Rightarrow> detectOrientation (naturalWidth img) (naturalHeight img)) fmt"
    by (simp add: processImage_double_def Let_def)
  show ?thesis
    unfolding b by (intro conjI a fit_example_double fit_tie_double double_27_close)
qed

lemma fit_spec_double_a4:
  "fit_spec_double 4000 3000 2480 3508 =
     \<lparr> fit_scale = 5584463537939415 / 9007199254740992, fit_scaledWidth = 2480,
       fit_scaledHeight = 1860, fit_offsetX = 0, fit_offsetY = 824 \<rparr>"
proof -
  have s: "spec_scale 4000 3000 2480 3508 = 5584463537939415 / 9007199254740992"
    by (simp add: spec_scale_def double_eval)
  have w: "round (double_round (real 4000 * (5584463537939415 / 9007199254740992))) = 2480"
    by (simp add: round_def double_eval)
  have h: "round (double_round (real 3000 * (5584463537939415 / 9007199254740992))) = 1860"
    by (simp add: round_def double_eval)
  show ?thesis
    unfolding fit_spec_double_def s w h by (simp add: round_def)
qed

theorem processImage_geometry_witness:
  "0 < naturalWidth \<lparr> naturalWidth = 4000, naturalHeight = 3000 \<rparr>
   \<and> 0 < naturalHeight \<lparr> naturalWidth = 4000, naturalHeight = 3000 \<rparr>
   \<and> geometry_of (processImage_double \<lparr> naturalWidth = 4000, naturalHeight = 3000 \<rparr> A4
         (Some Portrait))
       = \<lparr> fit_scale = 5584463537939415 / 9007199254740992, fit_scaledWidth = 2480,
           fit_scaledHeight = 1860, fit_offsetX = 0, fit_offsetY = 824 \<rparr>"
  using processImage_geometry
    [of "\<lparr> naturalWidth = 4000, naturalHeight = 3000 \<rparr>" 2480 3508 Portrait A4 "Some Portrait"]
  by (simp add: getCanvasDimensions_def A4_PORTRAIT_def fit_spec_double_a4)

subsection \<open>The target-size search\<close>

lemma search_loop_probe:
  "i < 8 \<Longrightarrow>
   search_loop (\<lambda>q. Some (enc q)) sz t i s = search_loop (\<lambda>q. Some (enc q)) sz t (Suc i) (probe enc sz t s)"
  by (subst search_loop.simps) (simp add: probe_def Let_def)

lemma search_loop_done: "\<not> i < 8 \<Longrightarrow> search_loop c sz t i s = Inr s"
  by (subst search_loop.simps) simp

lemma search_loop_funpow:
  "i + n = 8 \<Longrightarrow> search_loop (\<lambda>q. Some (enc q)) sz t i s = Inr ((probe enc sz t ^^ n) s)"
proof (induction n arbitrary: i s)
  case 0
  then show ?case by (simp add: search_loop_done)
next
  case (Suc n)
  then have "i < 8" and "Suc i + n = 8" by simp_all
  then show ?case
    using Suc.IH [of "Suc i" "probe enc sz t s"]
    by (simp add: search_loop_probe funpow_swap1)
qed

lemma search_loop_bisect:
  "search_loop (\<lambda>q. Some (enc q)) sz t 0 (search_start minQ maxQ) = Inr (bisect enc sz t minQ maxQ 8)"
  by (simp add: search_loop_funpow bisect_def)

lemma bisect_Suc: "bisect enc sz t minQ maxQ (Suc n) = probe enc sz t (bisect enc sz t minQ maxQ n)"
  by (simp add: bisect_def)

lemma bisect_0: "bisect enc sz t minQ maxQ 0 = search_start minQ maxQ"
  by (simp add: bisect_def)

lemma probe_low_high:
  "low (probe enc sz t s) = (if real (sz (enc ((low s + high s) / 2))) \<le> t then (low s + high s) / 2 else low s)"
  "high (probe enc sz t s) = (if real (sz (enc ((low s + high s) / 2))) \<le> t then high s else (low s + high s) / 2)"
  "encoded (probe enc sz t s) = encoded s @ [(low s + high s) / 2]"
  "bestBlob (probe enc sz t s) = (if real (sz (enc ((low s + high s) / 2))) \<le> t then Some (enc ((low s + high s) / 2)) else bestBlob s)"
  by (simp_all add: probe_def)

lemma bisect_length: "length (encoded (bisect enc sz t minQ maxQ n)) = n"
  by (induction n) (simp_all add: bisect_0 bisect_Suc probe_low_high search_start_def)

lemma bisect_le:
  "minQ \<le> maxQ \<Longrightarrow> minQ \<le> low (bisect enc sz t minQ maxQ n)
     \<and> low (bisect enc sz t minQ maxQ n) \<le> high (bisect enc sz t minQ maxQ n)
     \<and> high (bisect enc sz t minQ maxQ n) \<le> maxQ"
  by (induction n) (simp_all add: bisect_0 bisect_Suc probe_low_high search_start_def)

lemma bisect_best:
  "case bestBlob (bisect enc sz t minQ maxQ n) of
     None \<Rightarrow> low (bisect enc sz t minQ maxQ n) = minQ
       \<and> (\<forall>q \<in> set (encoded (bisect enc sz t minQ maxQ n)). \<not> real (sz (enc q)) \<le> t)
   | Some b \<Rightarrow> b = enc (low (bisect enc sz t minQ maxQ n)) \<and> real (sz b) \<le> t
       \<and> low (bisect enc sz t minQ maxQ n) \<in> set (encoded (bisect enc sz t minQ maxQ n))"
proof (induction n)
  case 0
  then show ?case by (simp add: bisect_0 search_start_def)
next
  case (Suc n)
  then show ?case
    by (auto simp: bisect_Suc probe_low_high split: option.splits)
qed

lemma bisect_encoded_mids:
  "encoded (bisect enc sz t minQ maxQ n)
     = map (\<lambda>k. (low (bisect enc sz t minQ maxQ k) + high (bisect enc sz t minQ maxQ k)) / 2) [0..<n]"
  by (induction n) (simp_all add: bisect_0 bisect_Suc probe_low_high search_start_def)

lemma compress_result:
  "compressToTargetSize (\<lambda>q. Some (enc q)) sz t minQ maxQ =
     (case bestBlob (bisect enc sz t minQ maxQ 8) of
        Some b \<Rightarrow> Inr (b, encoded (bisect enc sz t minQ maxQ 8))
      | None \<Rightarrow> Inr (enc minQ, encoded (bisect enc sz t minQ maxQ 8) @ [minQ]))"
  by (simp add: compressToTargetSize_def search_loop_bisect split: option.splits)

lemma compress_chosen:
  "\<exists>ps. compressToTargetSize (\<lambda>q. Some (enc q)) sz t minQ maxQ
           = Inr (enc (low (bisect enc sz t minQ maxQ 8)), ps)"
  using bisect_best [of enc sz t minQ maxQ 8]
  by (simp add: compress_result split: option.splits)

lemma bisect_mono:
  assumes "minQ \<le> maxQ" and "t1 \<le> t2"
  shows "(low (bisect enc sz t1 minQ maxQ n) = low (bisect enc sz t2 minQ maxQ n)
          \<and> high (bisect enc sz t1 minQ maxQ n) = high (bisect enc sz t2 minQ maxQ n))
       \<or> high (bisect enc sz t1 minQ maxQ n) \<le> low (bisect enc sz t2 minQ maxQ n)"
proof (induction n)
  case 0
  show ?case by (simp add: bisect_0 search_start_def)
next
  case (Suc n)
  let ?s1 = "bisect enc sz t1 minQ maxQ n" and ?s2 = "bisect enc sz t2 minQ maxQ n"
  have o1: "low ?s1 \<le> high ?s1" using bisect_le [OF assms(1), of enc sz t1 n] by simp
  have o2: "low ?s2 \<le> high ?s2" using bisect_le [OF assms(1), of enc sz t2 n] by simp
  from Suc.IH show ?case
  proof
    assume eq: "low ?s1 = low ?s2 \<and> high ?s1 = high ?s2"
    then show ?thesis using o1 o2 assms(2)
      by (auto simp: bisect_Suc probe_low_high)
  next
    assume sep: "high ?s1 \<le> low ?s2"
    have "high (probe enc sz t1 ?s1) \<le> high ?s1" using o1 by (simp add: probe_low_high)
    moreover have "low ?s2 \<le> low (probe enc sz t2 ?s2)" using o2 by (simp add: probe_low_high)
    ultimately show ?thesis using sep by (simp add: bisect_Suc)
  qed
qed

text \<open>
  Claim C1. With an encoder that produces a blob at every quality, the loop of
  \<^verbatim>\<open>compressToTargetSize\<close> ends in the state after exactly 8 probes of the specified
  binary search, the \<open>k\<close>-th at the midpoint of the interval after \<open>k\<close> probes. If one
  of the 8 probes met the budget, the function returns the recorded best blob, of size
  at most \<open>targetBytes\<close>, after these 8 encodings; if none did, it returns the encoding
  at \<open>minQuality\<close>, a ninth encoding.
\<close>

theorem compressToTargetSize_binary_search:
  "search_loop (\<lambda>q. Some (enc q)) sz t 0 (search_start minQ maxQ)
       = Inr (bisect enc sz t minQ maxQ 8)
   \<and> length (encoded (bisect enc sz t minQ maxQ 8)) = 8
   \<and> encoded (bisect enc sz t minQ maxQ 8)
       = map (\<lambda>k. (low (bisect enc sz t minQ maxQ k) + high (bisect enc sz t minQ maxQ k)) / 2)
           [0..<8]
   \<and> ((\<exists>q \<in> set (encoded (bisect enc sz t minQ maxQ 8)). real (sz (enc q)) \<le> t) \<longrightarrow>
        (\<exists>b. bestBlob (bisect enc sz t minQ maxQ 8) = Some b \<and> real (sz b) \<le> t
           \<and> compressToTargetSize (\<lambda>q. Some (enc q)) sz t minQ maxQ
               = Inr (b, encoded (bisect enc sz t minQ maxQ 8))))
   \<and> ((\<forall>q \<in> set (encoded (bisect enc sz t minQ maxQ 8)). \<not> real (sz (enc q)) \<le> t) \<longrightarrow>
        compressToTargetSize (\<lambda>q. Some (enc q)) sz t minQ maxQ
          = Inr (enc minQ, encoded (bisect enc sz t minQ maxQ 8) @ [minQ]))"
proof -
  let ?f = "bisect enc sz t minQ maxQ 8"
  note best = bisect_best [of enc sz t minQ maxQ 8]
  have fits: "\<exists>b. bestBlob ?f = Some b \<and> real (sz b) \<le> t
           \<and> compressToTargetSize (\<lambda>q. Some (enc q)) sz t minQ maxQ = Inr (b, encoded ?f)"
    if "\<exists>q \<in> set (encoded ?f). real (sz (enc q)) \<le> t"
    using that best by (cases "bestBlob ?f") (auto simp: compress_result)
  have none: "compressToTargetSize (\<lambda>q. Some (enc q)) sz t minQ maxQ
          = Inr (enc minQ, encoded ?f @ [minQ])"
    if n: "\<forall>q \<in> set (encoded ?f). \<not> real (sz (enc q)) \<le> t"
  proof (cases "bestBlob ?f")
    case None
    then show ?thesis by (simp add: compress_result)
  next
    case (Some b)
    with best have "real (sz (enc (low ?f))) \<le> t" and "low ?f \<in> set (encoded ?f)" by auto
    with n show ?thesis by blast
  qed
  show ?thesis
    using fits none
    by (simp only: search_loop_bisect bisect_length bisect_encoded_mids [symmetric]) blast
qed

lemma bisect_unfold8: "bisect enc sz t minQ maxQ 8 =
   probe enc sz t (probe enc sz t (probe enc sz t (probe enc sz t (probe enc sz t (probe enc sz t
     (probe enc sz t (probe enc sz t (search_start minQ maxQ))))))))"
  by (simp add: bisect_def eval_nat_numeral)

lemma bisect_example_fits:
  "bisect example_encoder id 50000 (1 / 10) (19 / 20) 8 =
     \<lparr> low = 319 / 640, high = 2569 / 5120, bestBlob = Some 48000,
       encoded = [21 / 40, 5 / 16, 67 / 160, 151 / 320, 319 / 640, 131 / 256,
                  1293 / 2560, 2569 / 5120] \<rparr>"
  by (simp add: bisect_unfold8 probe_def search_start_def example_encoder_def)

lemma bisect_example_none:
  "bisect example_encoder id 40000 (1 / 10) (19 / 20) 8 =
     \<lparr> low = 1 / 10, high = 529 / 5120, bestBlob = None,
       encoded = [21 / 40, 5 / 16, 33 / 160, 49 / 320, 81 / 640, 29 / 256, 273 / 2560,
                  529 / 5120] \<rparr>"
  by (simp add: bisect_unfold8 probe_def search_start_def example_encoder_def)

lemma example_encoder_values:
  "example_encoder (21 / 40) = 61000" "example_encoder (5 / 16) = 48000"
  "example_encoder (1 / 10) = 48000"
  by (simp_all add: example_encoder_def)

theorem compressToTargetSize_binary_search_witness:
  "21 / 40 \<in> set (encoded (bisect example_encoder id 40000 (1 / 10) (19 / 20) 8))
   \<and> \<not> real (id (example_encoder (21 / 40))) \<le> 40000
   \<and> compressToTargetSize (\<lambda>q. Some (example_encoder q)) id 40000 (1 / 10) (19 / 20)
       = Inr (48000, [21 / 40, 5 / 16, 33 / 160, 49 / 320, 81 / 640, 29 / 256, 273 / 2560,
                      529 / 5120, 1 / 10])
   \<and> 5 / 16 \<in> set (encoded (bisect example_encoder id 50000 (1 / 10) (19 / 20) 8))
   \<and> real (id (example_encoder (5 / 16))) \<le> 50000
   \<and> compressToTargetSize (\<lambda>q. Some (example_encoder q)) id 50000 (1 / 10) (19 / 20)
       = Inr (48000, [21 / 40, 5 / 16, 67 / 160, 151 / 320, 319 / 640, 131 / 256,
                      1293 / 2560, 2569 / 5120])"
proof -
  let ?n = "bisect example_encoder id 40000 (1 / 10) (19 / 20) 8"
  let ?f = "bisect example_encoder id 50000 (1 / 10) (19 / 20) 8"
  note none = compressToTargetSize_binary_search [of example_encoder id 40000 "1 / 10" "19 / 20"]
  note fits = compressToTargetSize_binary_search [of example_encoder id 50000 "1 / 10" "19 / 20"]
  have "\<forall>q \<in> set (encoded ?n). \<not> real (id (example_encoder q)) \<le> 40000"
    by (simp add: bisect_example_none example_encoder_def)
  with none have r1: "compressToTargetSize (\<lambda>q. Some (example_encoder q)) id 40000 (1 / 10) (19 / 20)
      = Inr (example_encoder (1 / 10), encoded ?n @ [1 / 10])"
    by blast
  have "\<exists>q \<in> set (encoded ?f). real (id (example_encoder q)) \<le> 50000"
    by (simp add: bisect_example_fits example_encoder_def)
  with fits obtain b where "bestBlob ?f = Some b"
    and "compressToTargetSize (\<lambda>q. Some (example_encoder q)) id 50000 (1 / 10) (19 / 20)
      = Inr (b, encoded ?f)"
    by blast
  then have r2: "compressToTargetSize (\<lambda>q. Some (example_encoder q)) id 50000 (1 / 10) (19 / 20)
      = Inr (48000, encoded ?f)"
    by (simp add: bisect_example_fits)
  show ?thesis
    unfolding r1 r2 by (simp add: bisect_example_fits bisect_example_none example_encoder_values)
qed

text \<open>
  Claim C7. For a fixed encoder that produces a blob at every quality and
  \<open>minQuality \<le> maxQuality\<close>, the quality whose encoding is returned does not
  decrease when \<open>targetBytes\<close> increases. The proof needs no monotonicity of the
  encoder: two searches take the same probes until one probe fits the larger budget only,
  and from there the search with the smaller budget stays below the other.
\<close>

theorem chosen_quality_monotone:
  assumes "minQ \<le> maxQ" and "t1 \<le> t2"
  shows "\<exists>q1 q2 ps1 ps2.
           chosenQuality (\<lambda>q. Some (enc q)) sz t1 minQ maxQ = Some q1
         \<and> compressToTargetSize (\<lambda>q. Some (enc q)) sz t1 minQ maxQ = Inr (enc q1, ps1)
         \<and> chosenQuality (\<lambda>q. Some (enc q)) sz t2 minQ maxQ = Some q2
         \<and> compressToTargetSize (\<lambda>q. Some (enc q)) sz t2 minQ maxQ = Inr (enc q2, ps2)
         \<and> q1 \<le> q2"
proof -
  let ?f1 = "bisect enc sz t1 minQ maxQ 8" and ?f2 = "bisect enc sz t2 minQ maxQ 8"
  have c1: "chosenQuality (\<lambda>q. Some (enc q)) sz t1 minQ maxQ = Some (low ?f1)"
    by (simp add: chosenQuality_def search_loop_bisect)
  have c2: "chosenQuality (\<lambda>q. Some (enc q)) sz t2 minQ maxQ = Some (low ?f2)"
    by (simp add: chosenQuality_def search_loop_bisect)
  obtain ps1 where r1:
    "compressToTargetSize (\<lambda>q. Some (enc q)) sz t1 minQ maxQ = Inr (enc (low ?f1), ps1)"
    using compress_chosen [of enc sz t1 minQ maxQ] by blast
  obtain ps2 where r2:
    "compressToTargetSize (\<lambda>q. Some (enc q)) sz t2 minQ maxQ = Inr (enc (low ?f2), ps2)"
    using compress_chosen [of enc sz t2 minQ maxQ] by blast
  have "low ?f1 \<le> high ?f1" using bisect_le [OF assms(1), of enc sz t1 8] by simp
  then have "low ?f1 \<le> low ?f2"
    using bisect_mono [OF assms, of enc sz 8] by auto
  with c1 c2 r1 r2 show ?thesis by blast
qed

theorem chosen_quality_monotone_witness:
  "(1 / 10 :: real) \<le> 19 / 20 \<and> (40000 :: real) \<le> 50000
   \<and> chosenQuality (\<lambda>q. Some (example_encoder q)) id 40000 (1 / 10) (19 / 20) = Some (1 / 10)
   \<and> chosenQuality (\<lambda>q. Some (example_encoder q)) id 50000 (1 / 10) (19 / 20) = Some (319 / 640)
   \<and> (1 / 10 :: real) \<le> 319 / 640"
  using chosen_quality_monotone [of "1 / 10" "19 / 20" 40000 50000 example_encoder id]
  by (simp add: chosenQuality_def search_loop_bisect bisect_example_fits bisect_example_none)

subsection \<open>The target-size search on doubles\<close>

lemma search_loop_double_probe:
  "i < 8 \<Longrightarrow>
   search_loop_double (\<lambda>q. Some (enc q)) sz t i s
     = search_loop_double (\<lambda>q. Some (enc q)) sz t (Suc i) (probe_double enc sz t s)"
  by (subst search_loop_double.simps) (simp add: probe_double_def Let_def)

lemma search_loop_double_done: "\<not> i < 8 \<Longrightarrow> search_loop_double c sz t i s = Inr s"
  by (subst search_loop_double.simps) simp

lemma search_loop_double_funpow:
  "i + n = 8 \<Longrightarrow>
   search_loop_double (\<lambda>q. Some (enc q)) sz t i s = Inr ((probe_double enc sz t ^^ n) s)"
proof (induction n arbitrary: i s)
  case 0
  then show ?case by (simp add: search_loop_double_done)
next
  case (Suc n)
  then have "i < 8" and "Suc i + n = 8" by simp_all
  then show ?case
    using Suc.IH [of "Suc i" "probe_double enc sz t s"]
    by (simp add: search_loop_double_probe funpow_swap1)
qed

lemma search_loop_double_bisect:
  "search_loop_double (\<lambda>q. Some (enc q)) sz t 0 (search_start minQ maxQ)
     = Inr (bisect_double enc sz t minQ maxQ 8)"
  by (simp add: search_loop_double_funpow bisect_double_def)

lemma search_loop_double_passes:
  "i \<le> 8 \<Longrightarrow>
   search_loop_double (\<lambda>q. Some (enc q)) sz t 0 (search_start minQ maxQ)
     = search_loop_double (\<lambda>q. Some (enc q)) sz t i (bisect_double enc sz t minQ maxQ i)"
proof -
  assume i: "i \<le> 8"
  then have "i + (8 - i) = 8" by simp
  then have "search_loop_double (\<lambda>q. Some (enc q)) sz t i (bisect_double enc sz t minQ maxQ i)
     = Inr ((probe_double enc sz t ^^ (8 - i)) (bisect_double enc sz t minQ maxQ i))"
    by (rule search_loop_double_funpow)
  also have "(probe_double enc sz t ^^ (8 - i)) (bisect_double enc sz t minQ maxQ i)
     = (probe_double enc sz t ^^ (8 - i + i)) (search_start minQ maxQ)"
    by (simp only: bisect_double_def funpow_add o_apply)
  also have "\<dots> = bisect_double enc sz t minQ maxQ 8" using i by (simp add: bisect_double_def)
  finally show ?thesis by (simp add: search_loop_double_bisect)
qed

lemma bisect_double_Suc:
  "bisect_double enc sz t minQ maxQ (Suc n)
     = probe_double enc sz t (bisect_double enc sz t minQ maxQ n)"
  by (simp add: bisect_double_def)

lemma bisect_double_0: "bisect_double enc sz t minQ maxQ 0 = search_start minQ maxQ"
  by (simp add: bisect_double_def)

lemma probe_double_fields:
  "low (probe_double enc sz t s) =
     (if real (sz (enc (double_round (low s + high s) / 2))) \<le> t
      then double_round (low s + high s) / 2 else low s)"
  "high (probe_double enc sz t s) =
     (if real (sz (enc (double_round (low s + high s) / 2))) \<le> t
      then high s else double_round (low s + high s) / 2)"
  "encoded (probe_double enc sz t s) = encoded s @ [double_round (low s + high s) / 2]"
  "bestBlob (probe_double enc sz t s) =
     (if real (sz (enc (double_round (low s + high s) / 2))) \<le> t
      then Some (enc (double_round (low s + high s) / 2)) else bestBlob s)"
  by (simp_all add: probe_double_def)

lemma mid_within:
  fixes r a b u :: real
  assumes "\<bar>r - (a + b)\<bar> \<le> u" and "u < b - a"
  shows "a < r / 2" and "r / 2 < b" and "\<bar>r / 2 - (a + b) / 2\<bar> \<le> u / 2"
proof -
  show "a < r / 2" and "r / 2 < b" using assms by linarith+
  have "\<bar>r / 2 - (a + b) / 2\<bar> = \<bar>r - (a + b)\<bar> / 2"
    by (simp add: diff_divide_distrib [symmetric])
  with assms(1) show "\<bar>r / 2 - (a + b) / 2\<bar> \<le> u / 2" by simp
qed

lemma double_mid:
  assumes "0 \<le> a" and "b \<le> 1" and "1 / 2 ^ 53 < b - a"
  shows "a < double_round (a + b) / 2" and "double_round (a + b) / 2 < b"
    and "\<bar>double_round (a + b) / 2 - (a + b) / 2\<bar> \<le> 1 / 2 ^ 54"
proof -
  have "0 < (1::real) / 2 ^ 53" by simp
  with assms have ab: "a < b" by linarith
  with assms have s: "0 \<le> a + b" "a + b < 2" by linarith+
  have e: "\<bar>double_round (a + b) - (a + b)\<bar> \<le> 1 / 2 ^ 53"
    using s by (rule double_round_error_below_two)
  show "a < double_round (a + b) / 2" using e assms(3) by (rule mid_within(1))
  show "double_round (a + b) / 2 < b" using e assms(3) by (rule mid_within(2))
  have "\<bar>double_round (a + b) / 2 - (a + b) / 2\<bar> \<le> (1 / 2 ^ 53) / 2"
    using e assms(3) by (rule mid_within(3))
  then show "\<bar>double_round (a + b) / 2 - (a + b) / 2\<bar> \<le> 1 / 2 ^ 54" by simp
qed

lemma wide_enough:
  assumes "n \<le> 8" and "1 / 2 ^ 40 \<le> maxQ - minQ"
    and "\<bar>w - (maxQ - minQ) / 2 ^ n\<bar> \<le> 1 / 2 ^ 53 - 1 / 2 ^ (53 + n)"
  shows "(1::real) / 2 ^ 53 < w"
proof -
  define d where "d = (maxQ - minQ) / 2 ^ n"
  define e :: real where "e = 1 / 2 ^ (53 + n)"
  define c :: real where "c = 1 / 2 ^ 53"
  define g :: real where "g = (1 / 2 ^ 40) / 2 ^ 8"
  have "(2::real) ^ n \<le> 2 ^ 8" using assms(1) by (intro power_increasing) simp_all
  then have "(1 / 2 ^ 40) / 2 ^ 8 \<le> (maxQ - minQ) / (2::real) ^ n"
    using assms(2) by (intro frac_le) simp_all
  then have gd: "g \<le> d" by (simp only: g_def d_def)
  have e: "0 < e" by (simp add: e_def)
  have gc: "2 * c \<le> g" by (simp add: g_def c_def)
  have "\<bar>w - d\<bar> \<le> c - e" using assms(3) by (simp only: d_def c_def e_def)
  with gd e gc have "c < w" by linarith
  then show ?thesis by (simp only: c_def)
qed


lemma halved_width:
  fixes m l h d c e :: real
  assumes "\<bar>h - l - d\<bar> \<le> c - e" and "\<bar>m - (l + h) / 2\<bar> \<le> c / 2"
  shows "\<bar>h - m - d / 2\<bar> \<le> c - e / 2" and "\<bar>m - l - d / 2\<bar> \<le> c - e / 2"
proof -
  have a: "h - l - d \<le> c - e" "- (h - l - d) \<le> c - e"
    using assms(1) by linarith+
  have b: "m - (l + h) / 2 \<le> c / 2" "- (m - (l + h) / 2) \<le> c / 2"
    using assms(2) by linarith+
  show "\<bar>h - m - d / 2\<bar> \<le> c - e / 2"
  proof (rule abs_leI)
    show "h - m - d / 2 \<le> c - e / 2" using a b by argo
    show "- (h - m - d / 2) \<le> c - e / 2" using a b by argo
  qed
  show "\<bar>m - l - d / 2\<bar> \<le> c - e / 2"
  proof (rule abs_leI)
    show "m - l - d / 2 \<le> c - e / 2" using a b by argo
    show "- (m - l - d / 2) \<le> c - e / 2" using a b by argo
  qed
qed

lemma probe_double_bounds:
  assumes n: "n < 8" and range: "0 \<le> minQ" "maxQ \<le> 1" and gap: "1 / 2 ^ 40 \<le> maxQ - minQ"
    and inv: "search_bounds minQ maxQ n s"
  shows "search_bounds minQ maxQ (Suc n) (probe_double enc sz t s)"
proof -
  let ?m = "double_round (low s + high s) / 2"
  from inv have lo: "minQ \<le> low s" and hi: "high s \<le> maxQ"
    and w: "\<bar>high s - low s - (maxQ - minQ) / 2 ^ n\<bar> \<le> 1 / 2 ^ 53 - 1 / 2 ^ (53 + n)"
    and old: "\<forall>q \<in> set (encoded s). minQ < q \<and> q < maxQ"
    by (simp_all add: search_bounds_def)
  have wide: "1 / 2 ^ 53 < high s - low s"
    using n by (intro wide_enough [OF _ gap w]) simp
  have l0: "0 \<le> low s" and h1: "high s \<le> 1" using lo hi range by linarith+
  note m = double_mid [OF l0 h1 wide]
  have m': "\<bar>?m - (low s + high s) / 2\<bar> \<le> (1 / 2 ^ 53) / 2" using m(3) by simp
  have d: "(maxQ - minQ) / 2 ^ Suc n = ((maxQ - minQ) / 2 ^ n) / 2" by simp
  have "(2::real) ^ (53 + Suc n) = 2 * 2 ^ (53 + n)"
    by (simp only: add_Suc_right power_Suc)
  then have e: "(1::real) / 2 ^ (53 + Suc n) = (1 / 2 ^ (53 + n)) / 2" by simp
  have wh: "\<bar>high s - ?m - (maxQ - minQ) / 2 ^ Suc n\<bar> \<le> 1 / 2 ^ 53 - 1 / 2 ^ (53 + Suc n)"
    unfolding d e using w m' by (rule halved_width(1))
  have wl: "\<bar>?m - low s - (maxQ - minQ) / 2 ^ Suc n\<bar> \<le> 1 / 2 ^ 53 - 1 / 2 ^ (53 + Suc n)"
    unfolding d e using w m' by (rule halved_width(2))
  have mq: "minQ < ?m" "?m < maxQ" using m(1,2) lo hi by linarith+
  show ?thesis
  proof (cases "real (sz (enc ?m)) \<le> t")
    case True
    then have "low (probe_double enc sz t s) = ?m" "high (probe_double enc sz t s) = high s"
      "encoded (probe_double enc sz t s) = encoded s @ [?m]"
      by (simp_all add: probe_double_fields)
    then show ?thesis
      unfolding search_bounds_def using wh mq hi old by simp
  next
    case False
    then have "low (probe_double enc sz t s) = low s" "high (probe_double enc sz t s) = ?m"
      "encoded (probe_double enc sz t s) = encoded s @ [?m]"
      by (simp_all add: probe_double_fields)
    then show ?thesis
      unfolding search_bounds_def using wl mq lo old by simp
  qed
qed

lemma bisect_double_bounds:
  assumes "0 \<le> minQ" and "maxQ \<le> 1" and "1 / 2 ^ 40 \<le> maxQ - minQ"
  shows "n \<le> 8 \<Longrightarrow> search_bounds minQ maxQ n (bisect_double enc sz t minQ maxQ n)"
proof (induction n)
  case 0
  show ?case by (simp add: bisect_double_0 search_start_def search_bounds_def)
next
  case (Suc n)
  then have "n < 8" and "search_bounds minQ maxQ n (bisect_double enc sz t minQ maxQ n)"
    by simp_all
  then show ?case
    unfolding bisect_double_Suc using assms by (intro probe_double_bounds)
qed

lemma bisect_double_ordered:
  assumes "0 \<le> minQ" and "maxQ \<le> 1" and "1 / 2 ^ 40 \<le> maxQ - minQ" and "n \<le> 8"
  shows "minQ \<le> low (bisect_double enc sz t minQ maxQ n)"
    and "low (bisect_double enc sz t minQ maxQ n) < high (bisect_double enc sz t minQ maxQ n)"
    and "high (bisect_double enc sz t minQ maxQ n) \<le> maxQ"
proof -
  let ?s = "bisect_double enc sz t minQ maxQ n"
  have inv: "search_bounds minQ maxQ n ?s"
    using assms by (intro bisect_double_bounds)
  then show "minQ \<le> low ?s" and "high ?s \<le> maxQ" by (simp_all add: search_bounds_def)
  from inv have "\<bar>high ?s - low ?s - (maxQ - minQ) / 2 ^ n\<bar> \<le> 1 / 2 ^ 53 - 1 / 2 ^ (53 + n)"
    by (simp add: search_bounds_def)
  then have "1 / 2 ^ 53 < high ?s - low ?s"
    by (intro wide_enough [OF assms(4,3)])
  moreover have "(0::real) < 1 / 2 ^ 53" by simp
  ultimately show "low ?s < high ?s" by linarith
qed

lemma bisect_double_best:
  "case bestBlob (bisect_double enc sz t minQ maxQ n) of
     None \<Rightarrow> (\<forall>q \<in> set (encoded (bisect_double enc sz t minQ maxQ n)). \<not> real (sz (enc q)) \<le> t)
   | Some b \<Rightarrow> real (sz b) \<le> t
       \<and> (\<exists>q \<in> set (encoded (bisect_double enc sz t minQ maxQ n)). b = enc q \<and> real (sz (enc q)) \<le> t)"
proof (induction n)
  case 0
  then show ?case by (simp add: bisect_double_0 search_start_def)
next
  case (Suc n)
  then show ?case
    by (auto simp: bisect_double_Suc probe_double_fields split: option.splits)
qed

lemma compress_double_result:
  "compressToTargetSize_double (\<lambda>q. Some (enc q)) sz t minQ maxQ =
     (case bestBlob (bisect_double enc sz t minQ maxQ 8) of
        Some b \<Rightarrow> Inr (b, encoded (bisect_double enc sz t minQ maxQ 8))
      | None \<Rightarrow> Inr (enc minQ, encoded (bisect_double enc sz t minQ maxQ 8) @ [minQ]))"
  by (simp add: compressToTargetSize_double_def search_loop_double_bisect split: option.splits)


lemma default_qualities:
  "minQuality_default = 3602879701896397 / 36028797018963968"
  "maxQuality_default = 4278419646001971 / 4503599627370496"
  by (simp_all add: minQuality_default_def maxQuality_default_def double_eval)

lemma bisect_double_unfold8: "bisect_double enc sz t minQ maxQ 8 =
   probe_double enc sz t (probe_double enc sz t (probe_double enc sz t (probe_double enc sz t
     (probe_double enc sz t (probe_double enc sz t (probe_double enc sz t (probe_double enc sz t
       (search_start minQ maxQ))))))))"
  by (simp add: bisect_double_def eval_nat_numeral)

lemma bisect_double_example_fits:
  "bisect_double example_encoder id 50000 minQuality_default maxQuality_default 8 =
     \<lparr> low = 8979051757069927 / 18014398509481984, high = 4519432594810471 / 9007199254740992, bestBlob = Some 48000,
       encoded = [4728779608739021 / 9007199254740992, 5 / 16, 7543529375845581 / 18014398509481984, 2125136074165453 / 4503599627370496, 8979051757069927 / 18014398509481984, 131 / 256, 2274669655542989 / 4503599627370496, 4519432594810471 / 9007199254740992] \<rparr>"
  by (simp add: bisect_double_unfold8 default_qualities probe_double_def search_start_def
      example_encoder_def double_eval)

lemma bisect_double_example_none:
  "bisect_double example_encoder id 40000 minQuality_default maxQuality_default 8 =
     \<lparr> low = 3602879701896397 / 36028797018963968, high = 1861253283499213 / 18014398509481984, bestBlob = None,
       encoded = [4728779608739021 / 9007199254740992, 5 / 16, 3715469692580659 / 18014398509481984, 2758454771764429 / 18014398509481984, 1139973655678157 / 9007199254740992, 8162774324609025 / 72057594037927936, 3842133432100455 / 36028797018963968, 1861253283499213 / 18014398509481984] \<rparr>"
  by (simp add: bisect_double_unfold8 default_qualities probe_double_def search_start_def
      example_encoder_def double_eval)


lemma bisect_double_length: "length (encoded (bisect_double enc sz t minQ maxQ n)) = n"
  by (induction n)
    (simp_all add: bisect_double_0 bisect_double_Suc probe_double_fields search_start_def)

text \<open>
  Claim C10 as stated fails in its last part: with the default qualities and the example
  encoder at a budget of 50000 bytes, the interval after the 8 probes runs from
  8979051757069927/2^54 to 4519432594810471/2^53, and its width is not
  \<open>(maxQuality - minQuality)/256\<close>, neither as exact numbers nor when both sides are
  computed on doubles.
\<close>

theorem width_not_exact_in_doubles:
  "search_loop_double (\<lambda>q. Some (example_encoder q)) id 50000 0
       (search_start minQuality_default maxQuality_default)
     = Inr (bisect_double example_encoder id 50000 minQuality_default maxQuality_default 8)
   \<and> low (bisect_double example_encoder id 50000 minQuality_default maxQuality_default 8)
       = 8979051757069927 / 18014398509481984
   \<and> high (bisect_double example_encoder id 50000 minQuality_default maxQuality_default 8)
       = 4519432594810471 / 9007199254740992
   \<and> high (bisect_double example_encoder id 50000 minQuality_default maxQuality_default 8)
       - low (bisect_double example_encoder id 50000 minQuality_default maxQuality_default 8)
       \<noteq> (maxQuality_default - minQuality_default) / 256
   \<and> double_round
         (high (bisect_double example_encoder id 50000 minQuality_default maxQuality_default 8)
          - low (bisect_double example_encoder id 50000 minQuality_default maxQuality_default 8))
       \<noteq> double_round (double_round (maxQuality_default - minQuality_default) / 256)"
proof -
  have a: "double_round (59813432551015 / 18014398509481984)
              = 59813432551015 / 18014398509481984"
    by (simp add: double_eval)
  have b: "double_round (30624477466119371 / 36028797018963968)
              = 7656119366529843 / 9007199254740992"
    by (simp add: double_eval)
  have c: "double_round (7656119366529843 / 2305843009213693952)
              = 7656119366529843 / 2305843009213693952"
    by (simp add: double_eval)
  let ?f = "bisect_double example_encoder id 50000 minQuality_default maxQuality_default 8"
  have l: "low ?f = 8979051757069927 / 18014398509481984"
    and h: "high ?f = 4519432594810471 / 9007199254740992"
    by (simp_all add: bisect_double_example_fits)
  have w: "high ?f - low ?f \<noteq> (maxQuality_default - minQuality_default) / 256"
    by (simp only: l h) (simp add: default_qualities)
  have r: "double_round (high ?f - low ?f)
      \<noteq> double_round (double_round (maxQuality_default - minQuality_default) / 256)"
    by (simp only: l h) (simp add: default_qualities a b c)
  show ?thesis
    using l h w r by (simp only: search_loop_double_bisect simp_thms)
qed

text \<open>
  Claim C10, amended. For qualities \<open>0 \<le> minQuality\<close>, \<open>maxQuality \<le> 1\<close> that are at
  least \<open>2^-40\<close> apart and an encoder that produces a blob at every quality, on doubles:
  before each of the 8 iterations and after the last,
  \<open>minQuality \<le> low < high \<le> maxQuality\<close>; the 8 probed qualities lie strictly between
  \<open>minQuality\<close> and \<open>maxQuality\<close>; after the loop \<open>high - low\<close> differs from
  \<open>(maxQuality - minQuality)/256\<close> by at most \<open>2^-53\<close>; if a probe met the budget the
  result is a blob within the budget and the encodings are the 8 probes; if no probe
  met it the result is the encoding at \<open>minQuality\<close>, the ninth encoding; and
  \<open>maxQuality\<close> is never encoded.
\<close>

theorem search_interval_in_doubles:
  assumes "0 \<le> minQ" and "maxQ \<le> 1" and "1 / 2 ^ 40 \<le> maxQ - minQ"
  shows "(\<forall>i \<le> 8.
            search_loop_double (\<lambda>q. Some (enc q)) sz t 0 (search_start minQ maxQ)
              = search_loop_double (\<lambda>q. Some (enc q)) sz t i (bisect_double enc sz t minQ maxQ i)
          \<and> minQ \<le> low (bisect_double enc sz t minQ maxQ i)
          \<and> low (bisect_double enc sz t minQ maxQ i) < high (bisect_double enc sz t minQ maxQ i)
          \<and> high (bisect_double enc sz t minQ maxQ i) \<le> maxQ)
       \<and> search_loop_double (\<lambda>q. Some (enc q)) sz t 0 (search_start minQ maxQ)
           = Inr (bisect_double enc sz t minQ maxQ 8)
       \<and> length (encoded (bisect_double enc sz t minQ maxQ 8)) = 8
       \<and> (\<forall>q \<in> set (encoded (bisect_double enc sz t minQ maxQ 8)). minQ < q \<and> q < maxQ)
       \<and> \<bar>high (bisect_double enc sz t minQ maxQ 8) - low (bisect_double enc sz t minQ maxQ 8)
            - (maxQ - minQ) / 256\<bar> \<le> 1 / 2 ^ 53
       \<and> ((\<exists>q \<in> set (encoded (bisect_double enc sz t minQ maxQ 8)). real (sz (enc q)) \<le> t) \<longrightarrow>
            (\<exists>b. real (sz b) \<le> t
               \<and> compressToTargetSize_double (\<lambda>q. Some (enc q)) sz t minQ maxQ
                   = Inr (b, encoded (bisect_double enc sz t minQ maxQ 8))))
       \<and> ((\<forall>q \<in> set (encoded (bisect_double enc sz t minQ maxQ 8)). \<not> real (sz (enc q)) \<le> t) \<longrightarrow>
            compressToTargetSize_double (\<lambda>q. Some (enc q)) sz t minQ maxQ
              = Inr (enc minQ, encoded (bisect_double enc sz t minQ maxQ 8) @ [minQ]))
       \<and> (\<forall>b ps. compressToTargetSize_double (\<lambda>q. Some (enc q)) sz t minQ maxQ = Inr (b, ps)
            \<longrightarrow> maxQ \<notin> set ps)"
proof -
  let ?f = "bisect_double enc sz t minQ maxQ 8"
  have a: "\<forall>i \<le> 8.
            search_loop_double (\<lambda>q. Some (enc q)) sz t 0 (search_start minQ maxQ)
              = search_loop_double (\<lambda>q. Some (enc q)) sz t i (bisect_double enc sz t minQ maxQ i)
          \<and> minQ \<le> low (bisect_double enc sz t minQ maxQ i)
          \<and> low (bisect_double enc sz t minQ maxQ i) < high (bisect_double enc sz t minQ maxQ i)
          \<and> high (bisect_double enc sz t minQ maxQ i) \<le> maxQ"
    using search_loop_double_passes [of _ enc sz t minQ maxQ]
      bisect_double_ordered [OF assms, of _ enc sz t]
    by blast
  have inv: "search_bounds minQ maxQ 8 ?f"
    using bisect_double_bounds [OF assms, of 8 enc sz t] by simp
  then have c: "\<forall>q \<in> set (encoded ?f). minQ < q \<and> q < maxQ"
    by (simp add: search_bounds_def)
  from inv have "\<bar>high ?f - low ?f - (maxQ - minQ) / 2 ^ 8\<bar> \<le> 1 / 2 ^ 53 - 1 / 2 ^ (53 + 8)"
    by (simp only: search_bounds_def)
  then have d: "\<bar>high ?f - low ?f - (maxQ - minQ) / 256\<bar> \<le> 1 / 2 ^ 53" by simp
  note best = bisect_double_best [of enc sz t minQ maxQ 8]
  have fits: "\<exists>b. real (sz b) \<le> t
       \<and> compressToTargetSize_double (\<lambda>q. Some (enc q)) sz t minQ maxQ = Inr (b, encoded ?f)"
    if "\<exists>q \<in> set (encoded ?f). real (sz (enc q)) \<le> t"
    using that best by (cases "bestBlob ?f") (auto simp: compress_double_result)
  have none: "compressToTargetSize_double (\<lambda>q. Some (enc q)) sz t minQ maxQ
          = Inr (enc minQ, encoded ?f @ [minQ])"
    if n: "\<forall>q \<in> set (encoded ?f). \<not> real (sz (enc q)) \<le> t"
  proof (cases "bestBlob ?f")
    case None
    then show ?thesis by (simp add: compress_double_result)
  next
    case (Some b)
    with best n show ?thesis by auto
  qed
  have gap: "minQ < maxQ"
  proof -
    have "(0::real) < 1 / 2 ^ 40" by simp
    with assms(3) show ?thesis by linarith
  qed
  have e: "maxQ \<notin> set ps"
    if "compressToTargetSize_double (\<lambda>q. Some (enc q)) sz t minQ maxQ = Inr (b, ps)" for b ps
  proof -
    from that have "ps = encoded ?f \<or> ps = encoded ?f @ [minQ]"
      by (auto simp: compress_double_result split: option.splits)
    with c gap show ?thesis by auto
  qed
  from a c d fits none e show ?thesis
    by (simp only: search_loop_double_bisect bisect_double_length) blast
qed

theorem search_interval_in_doubles_witness:
  "0 \<le> minQuality_default \<and> maxQuality_default \<le> 1
   \<and> 1 / 2 ^ 40 \<le> maxQuality_default - minQuality_default
   \<and> (8::nat) \<le> 8
   \<and> low (bisect_double example_encoder id 50000 minQuality_default maxQuality_default 8)
       < high (bisect_double example_encoder id 50000 minQuality_default maxQuality_default 8)
   \<and> 5 / 16 \<in> set (encoded
         (bisect_double example_encoder id 50000 minQuality_default maxQuality_default 8))
   \<and> minQuality_default < 5 / 16 \<and> 5 / 16 < maxQuality_default
   \<and> real (id (example_encoder (5 / 16))) \<le> 50000
   \<and> compressToTargetSize_double (\<lambda>q. Some (example_encoder q)) id 50000
         minQuality_default maxQuality_default
       = Inr (48000, encoded
           (bisect_double example_encoder id 50000 minQuality_default maxQuality_default 8))
   \<and> 5 / 16 \<in> set (encoded
         (bisect_double example_encoder id 40000 minQuality_default maxQuality_default 8))
   \<and> \<not> real (id (example_encoder (5 / 16))) \<le> 40000
   \<and> compressToTargetSize_double (\<lambda>q. Some (example_encoder q)) id 40000
         minQuality_default maxQuality_default
       = Inr (48000, encoded
           (bisect_double example_encoder id 40000 minQuality_default maxQuality_default 8)
           @ [minQuality_default])"
proof -
  let ?f = "bisect_double example_encoder id 50000 minQuality_default maxQuality_default 8"
  let ?n = "bisect_double example_encoder id 40000 minQuality_default maxQuality_default 8"
  have h: "0 \<le> minQuality_default" "maxQuality_default \<le> 1"
    "1 / 2 ^ 40 \<le> maxQuality_default - minQuality_default"
    by (simp_all add: default_qualities)
  note fits = search_interval_in_doubles [OF h, of example_encoder id 50000]
  note none = search_interval_in_doubles [OF h, of example_encoder id 40000]
  have order: "low ?f < high ?f" using fits by blast
  have in_f: "5 / 16 \<in> set (encoded ?f)" by (simp add: bisect_double_example_fits)
  have in_n: "5 / 16 \<in> set (encoded ?n)" by (simp add: bisect_double_example_none)
  have strict: "minQuality_default < 5 / 16 \<and> 5 / 16 < maxQuality_default"
    using fits in_f by blast
  have v: "example_encoder (5 / 16) = 48000" "example_encoder minQuality_default = 48000"
    by (simp_all add: example_encoder_def default_qualities)
  have "\<exists>q \<in> set (encoded ?f). real (id (example_encoder q)) \<le> 50000"
    by (rule bexI [OF _ in_f]) (simp add: v)
  with fits obtain b where
    "compressToTargetSize_double (\<lambda>q. Some (example_encoder q)) id 50000
         minQuality_default maxQuality_default = Inr (b, encoded ?f)"
    by blast
  then have r1: "compressToTargetSize_double (\<lambda>q. Some (example_encoder q)) id 50000
         minQuality_default maxQuality_default = Inr (48000, encoded ?f)"
    by (simp add: compress_double_result bisect_double_example_fits)
  have "\<forall>q \<in> set (encoded ?n). \<not> real (id (example_encoder q)) \<le> 40000"
    by (simp add: example_encoder_def)
  with none have r2: "compressToTargetSize_double (\<lambda>q. Some (example_encoder q)) id 40000
         minQuality_default maxQuality_default
       = Inr (example_encoder minQuality_default, encoded ?n @ [minQuality_default])"
    by blast
  show ?thesis
    using h order in_f in_n strict r1 r2 by (simp add: v)
qed

subsection \<open>The crop rectangle\<close>

lemma drag_size:
  "crop_width (dragArea W H a dx dy) = crop_width a"
  "crop_height (dragArea W H a dx dy) = crop_height a"
  by (simp_all add: dragArea_def Let_def)

lemma drag_inside:
  assumes "inside img a"
  shows "inside img (dragArea (real (naturalWidth img)) (real (naturalHeight img)) a dx dy)"
  using assms by (auto simp: inside_def dragArea_def Let_def max_def min_def)


lemma resize_resizable:
  assumes "inside img a" and "positive_size a"
  shows "resizable img
           (resizeArea h (real (naturalWidth img)) (real (naturalHeight img)) a dx dy)"
  using assms by (cases h) (auto simp: resizable_def positive_size_def inside_def Let_def max_def min_def)

lemma handle_has_e_or_w:
  "str_includes (handle_name h) CHR ''e'' \<or> str_includes (handle_name h) CHR ''w''"
  by (cases h) (simp_all add: str_includes_def)

lemma aspect_good:
  assumes r: "0 < r" and b: "resizable img b"
  shows "inside img (applyAspectRatio h (Some r) (real (naturalWidth img)) (real (naturalHeight img)) b)
    \<and> positive_size (applyAspectRatio h (Some r) (real (naturalWidth img)) (real (naturalHeight img)) b)
    \<and> crop_width (applyAspectRatio h (Some r) (real (naturalWidth img)) (real (naturalHeight img)) b)
       = crop_height (applyAspectRatio h (Some r) (real (naturalWidth img)) (real (naturalHeight img)) b) * r"
  using assms handle_has_e_or_w [of h]
  by (auto simp: applyAspectRatio_def truthy_def Let_def inside_def positive_size_def
      resizable_def field_simps)

lemma in_ratio_anchored: "in_ratio img r a \<Longrightarrow> anchored a"
  by (simp add: in_ratio_def anchored_def inside_def)

lemma drag_anchored: "anchored a \<Longrightarrow> anchored (dragArea W H a dx dy)"
  by (simp add: anchored_def positive_size_def dragArea_def Let_def max_def min_def)

lemma drag_in_ratio:
  "in_ratio img r a \<Longrightarrow>
   in_ratio img r (dragArea (real (naturalWidth img)) (real (naturalHeight img)) a dx dy)"
  using drag_inside [of img a dx dy]
  by (simp add: in_ratio_def positive_size_def drag_size)


lemma resize_anchored: "anchored a \<Longrightarrow> anchored (resizeArea h W H a dx dy)"
  by (cases h) (auto simp: anchored_def positive_size_def Let_def max_def min_def)

lemma resize_in_ratio:
  assumes "0 < r" and "in_ratio img r a"
  shows "in_ratio img r
     (applyAspectRatio h (Some r) (real (naturalWidth img)) (real (naturalHeight img))
        (resizeArea h (real (naturalWidth img)) (real (naturalHeight img)) a dx dy))"
proof -
  from assms(2) have "inside img a" and "positive_size a" by (simp_all add: in_ratio_def)
  then have "resizable img
     (resizeArea h (real (naturalWidth img)) (real (naturalHeight img)) a dx dy)"
    by (rule resize_resizable)
  from aspect_good [OF assms(1) this] show ?thesis by (simp add: in_ratio_def)
qed

lemma applyAspectRatio_free: "applyAspectRatio h None W H a = a"
  by (simp add: applyAspectRatio_def truthy_def)

lemma init_in_ratio:
  assumes "0 < naturalWidth img" and "0 < naturalHeight img" and "0 < r"
  shows "in_ratio img r (initCropArea img (Some r))"
  using assms
  by (auto simp: in_ratio_def inside_def positive_size_def initCropArea_def truthy_def Let_def
      field_simps)

lemma init_anchored:
  assumes "0 < naturalWidth img" and "0 < naturalHeight img"
  shows "anchored (initCropArea img None)"
  using assms
  by (simp add: anchored_def positive_size_def initCropArea_def truthy_def Let_def)


lemma preset_in_ratio:
  assumes "0 < r" and "anchored (cropArea s)"
  shows "positive_size (cropArea (handlePresetChange img s (Some r)))"
    and "crop_width (cropArea (handlePresetChange img s (Some r)))
         = crop_height (cropArea (handlePresetChange img s (Some r))) * r"
  using assms
  by (auto simp: handlePresetChange_def truthy_def Let_def anchored_def positive_size_def
      max_def min_def field_simps)

lemma preset_same_in_ratio:
  assumes "0 < r" and "in_ratio img r (cropArea s)"
  shows "in_ratio img r (cropArea (handlePresetChange img s (Some r)))"
  using assms
  by (auto simp: handlePresetChange_def truthy_def Let_def in_ratio_def inside_def
      positive_size_def max_def min_def field_simps)

lemma step_selectedRatio: "is_gesture e \<Longrightarrow> selectedRatio (step img s e) = selectedRatio s"
  by (cases e)
    (simp_all add: handleMouseDown_def handleMouseMove_def handleMouseUp_def Let_def
      split: option.splits)

lemma gesture_in_ratio:
  assumes "0 < r" and "selectedRatio s = Some r" and "during_gesture (in_ratio img r) s"
    and "is_gesture e"
  shows "during_gesture (in_ratio img r) (step img s e)"
proof (cases e)
  case (MouseDown h cx cy)
  with assms(3) show ?thesis
    by (simp add: handleMouseDown_def during_gesture_def idle_def split: option.splits)
next
  case (MouseMove cx cy)
  show ?thesis
  proof (cases "idle s")
    case True
    with assms(3) MouseMove show ?thesis
      by (simp add: handleMouseMove_def idle_def)
  next
    case False
    with assms(3) have st: "in_ratio img r (cropStart s)" by (simp add: during_gesture_def)
    show ?thesis
    proof (cases "isDragging s")
      case True
      with st False MouseMove show ?thesis
        by (simp add: handleMouseMove_def during_gesture_def idle_def Let_def drag_in_ratio)
    next
      case nd: False
      with False obtain h where h: "isResizing s = Some h" by (auto simp: idle_def)
      with st nd MouseMove assms(1,2) show ?thesis
        by (simp add: handleMouseMove_def during_gesture_def idle_def Let_def resize_in_ratio)
    qed
  qed
next
  case MouseUp
  with assms(3) show ?thesis
    by (simp add: handleMouseUp_def during_gesture_def idle_def)
next
  case (PresetChange p)
  with assms(4) show ?thesis by simp
qed

lemma gesture_anchored:
  assumes "selectedRatio s = None" and "during_gesture anchored s" and "is_gesture e"
  shows "during_gesture anchored (step img s e)"
proof (cases e)
  case (MouseDown h cx cy)
  with assms(2) show ?thesis
    by (simp add: handleMouseDown_def during_gesture_def idle_def split: option.splits)
next
  case (MouseMove cx cy)
  show ?thesis
  proof (cases "idle s")
    case True
    with assms(2) MouseMove show ?thesis
      by (simp add: handleMouseMove_def idle_def)
  next
    case False
    with assms(2) have st: "anchored (cropStart s)" by (simp add: during_gesture_def)
    show ?thesis
    proof (cases "isDragging s")
      case True
      with st False MouseMove show ?thesis
        by (simp add: handleMouseMove_def during_gesture_def idle_def Let_def drag_anchored)
    next
      case nd: False
      with False obtain h where h: "isResizing s = Some h" by (auto simp: idle_def)
      with st nd MouseMove assms(1) show ?thesis
        by (simp add: handleMouseMove_def during_gesture_def idle_def Let_def resize_anchored
            applyAspectRatio_free)
    qed
  qed
next
  case MouseUp
  with assms(2) show ?thesis
    by (simp add: handleMouseUp_def during_gesture_def idle_def)
next
  case (PresetChange p)
  with assms(3) show ?thesis by simp
qed


lemma run_Nil: "run img s [] = s"
  by (simp add: run_def)

lemma run_Cons: "run img s (e # evs) = run img (step img s e) evs"
  by (simp add: run_def)



lemma handlePresetChange_fields:
  "selectedRatio (handlePresetChange img s p) = p"
  "idle (handlePresetChange img s p) = idle s"
  "cropStart (handlePresetChange img s p) = cropStart s"
  "isDragging (handlePresetChange img s p) = isDragging s"
  "isResizing (handlePresetChange img s p) = isResizing s"
  by (simp_all add: handlePresetChange_def idle_def Let_def)

lemma presetChanged_invariant:
  assumes pos: "0 < naturalWidth img" "0 < naturalHeight img"
    and inv: "ratio_invariant img s" and idle: "idle s" and valid: "valid_ratio p"
  shows "ratio_invariant img (presetChanged img s p)"
proof (cases p)
  case None
  show ?thesis
  proof (cases "selectedRatio s = None")
    case True
    with None inv show ?thesis
      by (simp add: presetChanged_def handlePresetChange_def truthy_def ratio_invariant_def
          during_gesture_def idle_def)
  next
    case False
    with None idle init_anchored [OF pos] show ?thesis
      by (simp add: presetChanged_def handlePresetChange_def truthy_def ratio_invariant_def
          during_gesture_def idle_def)
  qed
next
  case (Some r)
  with valid have r: "0 < r" by (simp add: valid_ratio_def)
  show ?thesis
  proof (cases "selectedRatio s = Some r")
    case True
    with inv have "in_ratio img r (cropArea s)"
      by (simp add: ratio_invariant_def during_gesture_def)
    then have "in_ratio img r (cropArea (handlePresetChange img s (Some r)))"
      using r by (intro preset_same_in_ratio)
    with True Some r idle show ?thesis
      by (simp add: presetChanged_def ratio_invariant_def during_gesture_def
          handlePresetChange_fields)
  next
    case False
    with Some r idle init_in_ratio [OF pos r] show ?thesis
      by (simp add: presetChanged_def ratio_invariant_def during_gesture_def
          handlePresetChange_fields idle_def)
  qed
qed

lemma gesture_ratio_invariant:
  assumes "ratio_invariant img s" and "is_gesture e"
  shows "ratio_invariant img (step img s e)"
proof (cases "selectedRatio s")
  case None
  with assms show ?thesis
    using gesture_anchored [of s e img]
    by (simp add: ratio_invariant_def step_selectedRatio)
next
  case (Some r)
  with assms show ?thesis
    using gesture_in_ratio [of r s img e]
    by (simp add: ratio_invariant_def step_selectedRatio)
qed

lemma run_ratio_invariant:
  assumes pos: "0 < naturalWidth img" "0 < naturalHeight img"
  shows "ratio_invariant img s \<Longrightarrow> presets_while_idle img s evs \<Longrightarrow>
     ratio_invariant img (run img s evs)"
proof (induction evs arbitrary: s)
  case Nil
  then show ?case by (simp add: run_Nil)
next
  case (Cons e evs)
  show ?case
  proof (cases "is_gesture e")
    case True
    then have "presets_while_idle img (step img s e) evs"
      using Cons.prems(2) by (cases e) simp_all
    moreover have "ratio_invariant img (step img s e)"
      using Cons.prems(1) True by (rule gesture_ratio_invariant)
    ultimately show ?thesis using Cons.IH by (simp add: run_Cons)
  next
    case False
    then obtain p where e: "e = PresetChange p" by (cases e) simp_all
    with Cons.prems(2) have "idle s" and "valid_ratio p"
      and rest: "presets_while_idle img (step img s e) evs" by simp_all
    then have "ratio_invariant img (step img s e)"
      using presetChanged_invariant [OF pos Cons.prems(1)] e by simp
    with rest show ?thesis using Cons.IH by (simp add: run_Cons)
  qed
qed

lemma initial_ratio_invariant:
  assumes "0 < naturalWidth img" and "0 < naturalHeight img" and "valid_ratio ratio"
  shows "ratio_invariant img (initial_state img ratio)"
proof (cases ratio)
  case None
  with init_anchored [OF assms(1,2)] show ?thesis
    by (simp add: ratio_invariant_def initial_state_def during_gesture_def idle_def)
next
  case (Some r)
  with assms(3) have "0 < r" by (simp add: valid_ratio_def)
  with Some init_in_ratio [OF assms(1,2)] show ?thesis
    by (simp add: ratio_invariant_def initial_state_def during_gesture_def idle_def)
qed

lemma ratio_invariant_anchored: "ratio_invariant img s \<Longrightarrow> anchored (cropArea s)"
  by (auto simp: ratio_invariant_def during_gesture_def in_ratio_anchored split: option.splits)

lemma ratio_exact:
  assumes "0 < crop_height a" and "crop_width a = crop_height a * r"
  shows "\<bar>crop_width a / crop_height a - r\<bar> < 1 / 10 ^ 6"
  using assms by simp

text \<open>
  Claim C5. On a loaded image, after every sequence of gesture events and preset changes
  in which the presets have positive ratios and change while no gesture is under way:
  whenever a ratio \<open>r\<close> is selected, the rectangle satisfies
  \<open>\<bar>width/height - r\<bar> < 1e-6\<close>; and the rectangle that \<^verbatim>\<open>handlePresetChange\<close> computes
  for a preset of ratio \<open>r' > 0\<close> satisfies it for \<open>r'\<close>.
\<close>

theorem aspect_ratio_preserved:
  assumes "0 < naturalWidth img" and "0 < naturalHeight img"
    and "valid_ratio ratio" and "presets_while_idle img (initial_state img ratio) evs"
  shows "(\<forall>r. selectedRatio (run img (initial_state img ratio) evs) = Some r \<longrightarrow>
            \<bar>crop_width (cropArea (run img (initial_state img ratio) evs))
               / crop_height (cropArea (run img (initial_state img ratio) evs)) - r\<bar> < 1 / 10 ^ 6)
       \<and> (\<forall>r'. 0 < r' \<longrightarrow>
            \<bar>crop_width (cropArea (handlePresetChange img (run img (initial_state img ratio) evs) (Some r')))
               / crop_height (cropArea (handlePresetChange img (run img (initial_state img ratio) evs) (Some r')))
               - r'\<bar> < 1 / 10 ^ 6)"
proof -
  let ?s = "run img (initial_state img ratio) evs"
  have inv: "ratio_invariant img ?s"
    using assms by (intro run_ratio_invariant initial_ratio_invariant)
  have a: "\<bar>crop_width (cropArea ?s) / crop_height (cropArea ?s) - r\<bar> < 1 / 10 ^ 6"
    if "selectedRatio ?s = Some r" for r
  proof -
    from inv that have "in_ratio img r (cropArea ?s)"
      by (simp add: ratio_invariant_def during_gesture_def)
    then show ?thesis by (intro ratio_exact) (simp_all add: in_ratio_def positive_size_def)
  qed
  have b: "\<bar>crop_width (cropArea (handlePresetChange img ?s (Some r')))
               / crop_height (cropArea (handlePresetChange img ?s (Some r'))) - r'\<bar> < 1 / 10 ^ 6"
    if "0 < r'" for r'
    using preset_in_ratio [OF that ratio_invariant_anchored [OF inv]]
    by (intro ratio_exact) (simp_all add: positive_size_def)
  from a b show ?thesis by blast
qed

lemmas crop_eval =
  run_def handleMouseDown_def handleMouseMove_def handleMouseUp_def presetChanged_def
  handlePresetChange_def displayScale_def dragArea_def applyAspectRatio_def truthy_def
  str_includes_def Let_def initial_state_def initCropArea_def img1000_def

lemma run_example_shrink:
  "cropArea (run img1000 (initial_state img1000 (Some (16 / 9)))
      [MouseDown (Some SE) 0 0, MouseMove (- 380) 0])
   = \<lparr> crop_x = 100, crop_y = 275, crop_width = 50, crop_height = 225 / 8 \<rparr>"
  by (simp add: crop_eval)


lemma run_small_source:
  "cropArea (run img40 (initial_state img40 None) [MouseDown (Some SE) 0 0, MouseMove 1 1])
     = \<lparr> crop_x = 4, crop_y = 4, crop_width = 50, crop_height = 50 \<rparr>"
  by (simp add: crop_eval img40_def)

text \<open>
  Claim C2 fails of the code, in both of its parts. On a 40 by 40 source with no fixed
  ratio the initial rectangle is 32 by 32 at (4, 4) and the display scale is 1; a
  pointer-down on the handle \<open>se\<close> and a move by (1, 1) give
  \<^verbatim>\<open>Math.max(50, Math.min(imgW - x, 33))\<close>, a rectangle 50 by 50 at (4, 4), which
  reaches to 54 in an image of 40: the minimum overrides the bound the code has just
  computed. On the 1000 by 1000 source with the ratio 16:9, pulling the handle \<open>se\<close>
  far to the left gives a rectangle 50 wide and 28.125 high: the aspect block
  overwrites the height after the minimum was applied.
\<close>

theorem resize_breaks_crop_invariant:
  "displayScale img40 = 1
   \<and> cropArea (initial_state img40 None)
       = \<lparr> crop_x = 4, crop_y = 4, crop_width = 32, crop_height = 32 \<rparr>
   \<and> inside img40 (cropArea (initial_state img40 None))
   \<and> cropArea (run img40 (initial_state img40 None) [MouseDown (Some SE) 0 0, MouseMove 1 1])
       = \<lparr> crop_x = 4, crop_y = 4, crop_width = 50, crop_height = 50 \<rparr>
   \<and> real (naturalWidth img40)
       < crop_x (cropArea (run img40 (initial_state img40 None)
            [MouseDown (Some SE) 0 0, MouseMove 1 1]))
         + crop_width (cropArea (run img40 (initial_state img40 None)
            [MouseDown (Some SE) 0 0, MouseMove 1 1]))
   \<and> real (naturalHeight img40)
       < crop_y (cropArea (run img40 (initial_state img40 None)
            [MouseDown (Some SE) 0 0, MouseMove 1 1]))
         + crop_height (cropArea (run img40 (initial_state img40 None)
            [MouseDown (Some SE) 0 0, MouseMove 1 1]))
   \<and> \<not> inside img40 (cropArea (run img40 (initial_state img40 None)
            [MouseDown (Some SE) 0 0, MouseMove 1 1]))
   \<and> cropArea (run img1000 (initial_state img1000 (Some (16 / 9)))
          [MouseDown (Some SE) 0 0, MouseMove (- 380) 0])
       = \<lparr> crop_x = 100, crop_y = 275, crop_width = 50, crop_height = 225 / 8 \<rparr>
   \<and> \<not> crop_invariant img1000
         (cropArea (run img1000 (initial_state img1000 (Some (16 / 9)))
            [MouseDown (Some SE) 0 0, MouseMove (- 380) 0]))"
proof -
  have a: "displayScale img40 = 1" by (simp add: displayScale_def img40_def)
  have b: "cropArea (initial_state img40 None)
       = \<lparr> crop_x = 4, crop_y = 4, crop_width = 32, crop_height = 32 \<rparr>"
    by (simp add: initial_state_def initCropArea_def truthy_def img40_def)
  have c: "inside img40 \<lparr> crop_x = 4, crop_y = 4, crop_width = 32, crop_height = 32 \<rparr>"
    by (simp add: inside_def img40_def)
  have d: "real (naturalWidth img40) = 40" "real (naturalHeight img40) = 40"
    by (simp_all add: img40_def)
  have e: "\<not> inside img40 \<lparr> crop_x = 4, crop_y = 4, crop_width = 50, crop_height = 50 \<rparr>"
    by (simp add: inside_def img40_def)
  have f: "\<not> crop_invariant img1000
      \<lparr> crop_x = 100, crop_y = 275, crop_width = 50, crop_height = 225 / 8 \<rparr>"
    by (simp add: crop_invariant_def)
  show ?thesis
    unfolding run_small_source run_example_shrink b d using a c e f by simp
qed

lemma run_example_preset:
  "run img1000 (initial_state img1000 (Some (16 / 9)))
      [MouseDown (Some SE) 0 0, MouseMove 190 (19 / 5), MouseUp, PresetChange (Some (4 / 3))]
   = \<lparr> cropArea = \<lparr> crop_x = 100, crop_y = 200, crop_width = 800, crop_height = 600 \<rparr>,
       cropStart = \<lparr> crop_x = 100, crop_y = 275, crop_width = 800, crop_height = 450 \<rparr>,
       isDragging = False, isResizing = None, dragStart = (0, 0),
       selectedRatio = Some (4 / 3) \<rparr>"
  by (simp add: crop_eval)

lemma presets_example:
  "presets_while_idle img1000 (initial_state img1000 (Some (16 / 9)))
      [MouseDown (Some SE) 0 0, MouseMove 190 (19 / 5), MouseUp, PresetChange (Some (4 / 3))]"
  by (simp add: crop_eval idle_def valid_ratio_def)

theorem aspect_ratio_preserved_witness:
  "0 < naturalWidth img1000 \<and> 0 < naturalHeight img1000
   \<and> valid_ratio (Some (16 / 9))
   \<and> presets_while_idle img1000 (initial_state img1000 (Some (16 / 9)))
        [MouseDown (Some SE) 0 0, MouseMove 190 (19 / 5), MouseUp, PresetChange (Some (4 / 3))]
   \<and> selectedRatio (run img1000 (initial_state img1000 (Some (16 / 9)))
        [MouseDown (Some SE) 0 0, MouseMove 190 (19 / 5), MouseUp, PresetChange (Some (4 / 3))])
       = Some (4 / 3)
   \<and> \<bar>crop_width (cropArea (run img1000 (initial_state img1000 (Some (16 / 9)))
          [MouseDown (Some SE) 0 0, MouseMove 190 (19 / 5), MouseUp, PresetChange (Some (4 / 3))]))
       / crop_height (cropArea (run img1000 (initial_state img1000 (Some (16 / 9)))
          [MouseDown (Some SE) 0 0, MouseMove 190 (19 / 5), MouseUp, PresetChange (Some (4 / 3))]))
       - 4 / 3\<bar> < 1 / 10 ^ 6"
proof -
  let ?evs = "[MouseDown (Some SE) 0 0, MouseMove 190 (19 / 5), MouseUp, PresetChange (Some (4 / 3))]"
  have pos: "0 < naturalWidth img1000" "0 < naturalHeight img1000"
    by (simp_all add: img1000_def)
  have valid: "valid_ratio (Some (16 / 9))"
    by (simp add: valid_ratio_def)
  have sel: "selectedRatio (run img1000 (initial_state img1000 (Some (16 / 9))) ?evs) = Some (4 / 3)"
    by (simp add: run_example_preset)
  from aspect_ratio_preserved [OF pos valid presets_example] sel
  have "\<bar>crop_width (cropArea (run img1000 (initial_state img1000 (Some (16 / 9))) ?evs))
       / crop_height (cropArea (run img1000 (initial_state img1000 (Some (16 / 9))) ?evs))
       - 4 / 3\<bar> < 1 / 10 ^ 6"
    by blast
  with pos valid presets_example sel show ?thesis by blast
qed

subsection \<open>The extraction\<close>







end
